theory Spec2Isabelle
  imports Complex_Main "HOL-Library.Sublist"
begin

section \<open>Python strings\<close>

text \<open>
  A Python \<open>str\<close> is a sequence of Unicode code points, so it is modelled as a list of
  natural numbers: indexing, length and substring search count code points, as in the
  source. \<open>str\<close> turns an ASCII literal of the source into this representation.

  \<open>lower\<close> maps \<open>A\<close>..\<open>Z\<close> to \<open>a\<close>..\<open>z\<close> and leaves every other code point
  unchanged (Devanagari has no case). It is used for substring tests against the fixed
  keyword lists only.
\<close>

type_synonym pystr = "nat list"

definition str :: "string \<Rightarrow> pystr" where
  "str s = map of_char s"

definition lower_char :: "nat \<Rightarrow> nat" where
  "lower_char c = (if 65 \<le> c \<and> c \<le> 90 then c + 32 else c)"

definition lower :: "pystr \<Rightarrow> pystr" where
  "lower s = map lower_char s"

text \<open>\<open>startswith s sub\<close> is \<open>s.startswith(sub)\<close>; \<open>is_in sub s\<close> is \<open>sub in s\<close>.\<close>

fun startswith :: "pystr \<Rightarrow> pystr \<Rightarrow> bool" where
  "startswith s [] = True"
| "startswith [] (c # sub) = False"
| "startswith (x # s) (c # sub) = (x = c \<and> startswith s sub)"

fun is_in :: "pystr \<Rightarrow> pystr \<Rightarrow> bool" where
  "is_in sub [] = (sub = [])"
| "is_in sub (x # s) = (startswith (x # s) sub \<or> is_in sub s)"

text \<open>\<open>join sep xs\<close> is \<open>sep.join(xs)\<close>.\<close>

fun join :: "pystr \<Rightarrow> pystr list \<Rightarrow> pystr" where
  "join sep [] = []"
| "join sep [x] = x"
| "join sep (x # y # ys) = x @ sep @ join sep (y # ys)"

section \<open>Urgency assessment\<close>

text \<open>
  \<^verbatim>\<open>
  def assess_urgency(self, text, category):
      urgent_keywords = ['emergency', 'urgent', 'immediate', 'threat', 'violence',
                         'harassment', 'eviction']
      text_lower = text.lower()
      urgency_score = 0
      for keyword in urgent_keywords:
          if keyword in text_lower:
              urgency_score += 1
      if category == 'criminal':
          urgency_score += 2
      if urgency_score >= 3:   return 'HIGH'
      elif urgency_score >= 1: return 'MEDIUM'
      else:                    return 'LOW'
  \<close>
  The three strings the function can return are the constructors of \<open>urgency\<close>.
  \<open>keyword_hits\<close> is the loop and \<open>urgency_score\<close> the value of the variable of that
  name when the thresholds are tested.
\<close>

datatype urgency = LOW | MEDIUM | HIGH

definition urgent_keywords :: "pystr list" where
  "urgent_keywords = map str [''emergency'', ''urgent'', ''immediate'', ''threat'',
     ''violence'', ''harassment'', ''eviction'']"

definition keyword_hits :: "pystr list \<Rightarrow> pystr \<Rightarrow> int" where
  "keyword_hits keywords text_lower =
     fold (\<lambda>keyword urgency_score.
             if is_in keyword text_lower then urgency_score + 1 else urgency_score)
          keywords 0"

definition urgency_score :: "pystr \<Rightarrow> pystr \<Rightarrow> int" where
  "urgency_score text category =
     (let text_lower = lower text;
          urgency_score = keyword_hits urgent_keywords text_lower
      in if category = str ''criminal'' then urgency_score + 2 else urgency_score)"

definition assess_urgency :: "pystr \<Rightarrow> pystr \<Rightarrow> urgency" where
  "assess_urgency text category =
     (let urgency_score = urgency_score text category
      in if urgency_score \<ge> 3 then HIGH
         else if urgency_score \<ge> 1 then MEDIUM
         else LOW)"

text \<open>The order of the tiers, \<open>LOW < MEDIUM < HIGH\<close>.\<close>

fun tier_rank :: "urgency \<Rightarrow> nat" where
  "tier_rank LOW = 0"
| "tier_rank MEDIUM = 1"
| "tier_rank HIGH = 2"

text \<open>
  The score as the specification words it: every occurrence of every urgent keyword in
  the lower-cased text counts. \<open>occurrences s sub\<close> is the number of positions of \<open>s\<close>
  at which \<open>sub\<close> starts.
\<close>

fun occurrences :: "pystr \<Rightarrow> pystr \<Rightarrow> nat" where
  "occurrences [] sub = 0"
| "occurrences (x # s) sub = (if startswith (x # s) sub then 1 else 0) + occurrences s sub"

definition spec_urgency_score :: "pystr \<Rightarrow> pystr \<Rightarrow> int" where
  "spec_urgency_score text category =
     int (sum_list (map (occurrences (lower text)) urgent_keywords))
       + (if category = str ''criminal'' then 2 else 0)"

definition spec_assess_urgency :: "pystr \<Rightarrow> pystr \<Rightarrow> urgency" where
  "spec_assess_urgency text category =
     (if spec_urgency_score text category \<ge> 3 then HIGH
      else if spec_urgency_score text category \<ge> 1 then MEDIUM
      else LOW)"

section \<open>Advice generation\<close>

text \<open>
  The dictionary built by \<open>extract_key_info\<close>. \<open>parties_involved\<close> and \<open>locations\<close>
  are created empty and never filled.
\<close>

record extracted_info =
  parties_involved :: "pystr list"
  legal_keywords :: "pystr list"
  dates :: "pystr list"
  amounts :: "pystr list"
  locations :: "pystr list"

record template =
  steps :: "pystr list"
  laws :: "pystr list"

record advice =
  recommended_steps :: "pystr list"
  applicable_laws :: "pystr list"
  urgency_level :: urgency

definition family_template :: template where
  "family_template = \<lparr>
     steps = map str [
       ''Document all relevant communications and agreements'',
       ''Consult with a family law specialist'',
       ''Consider mediation before litigation'',
       ''Gather all financial documents'',
       ''Understand your rights under family laws''],
     laws = map str [
       ''Hindu Marriage Act, 1955'',
       ''Indian Succession Act, 1925'',
       ''Protection of Women from Domestic Violence Act, 2005'',
       ''Guardians and Wards Act, 1890'']\<rparr>"

definition criminal_template :: template where
  "criminal_template = \<lparr>
     steps = map str [
       ''File an FIR at the nearest police station immediately'',
       ''Preserve all evidence related to the incident'',
       ''Consult with a criminal lawyer'',
       ''Cooperate with police investigation'',
       ''Keep records of all proceedings''],
     laws = map str [
       ''Indian Penal Code, 1860'',
       ''Code of Criminal Procedure, 1973'',
       ''Indian Evidence Act, 1872'',
       ''Protection of Women from Sexual Harassment Act, 2013'']\<rparr>"

definition civil_template :: template where
  "civil_template = \<lparr>
     steps = map str [
       ''Send a legal notice to the other party'',
       ''Gather all relevant documents and evidence'',
       ''Attempt alternative dispute resolution'',
       ''File a civil suit if necessary'',
       ''Maintain detailed records''],
     laws = map str [
       ''Code of Civil Procedure, 1908'',
       ''Indian Contract Act, 1872'',
       ''Specific Relief Act, 1963'',
       ''Limitation Act, 1963'']\<rparr>"

definition property_template :: template where
  "property_template = \<lparr>
     steps = map str [
       ''Verify property documents and titles'',
       ''Check for any encumbrances or disputes'',
       ''Consult with a property lawyer'',
       ''Register the property properly'',
       ''Maintain all transaction records''],
     laws = map str [
       ''Transfer of Property Act, 1882'',
       ''Registration Act, 1908'',
       ''Indian Stamp Act, 1899'',
       ''Real Estate Regulation Act, 2016'']\<rparr>"

definition employment_template :: template where
  "employment_template = \<lparr>
     steps = map str [
       ''Review your employment contract'',
       ''Document workplace incidents'',
       ''File complaints with appropriate authorities'',
       ''Seek legal consultation'',
       ''Understand your labor rights''],
     laws = map str [
       ''Industrial Disputes Act, 1947'',
       ''Minimum Wages Act, 1948'',
       ''Employees' Provident Fund Act, 1952'',
       ''Sexual Harassment of Women at Workplace Act, 2013'']\<rparr>"

definition consumer_template :: template where
  "consumer_template = \<lparr>
     steps = map str [
       ''File a complaint with consumer forum'',
       ''Gather purchase receipts and warranties'',
       ''Document all communications with seller'',
       ''Seek compensation for damages'',
       ''Know your consumer rights''],
     laws = map str [
       ''Consumer Protection Act, 2019'',
       ''Indian Contract Act, 1872'',
       ''Sale of Goods Act, 1930'',
       ''Competition Act, 2002'']\<rparr>"

text \<open>The dictionary \<open>advice_templates\<close>, in the order of the source.\<close>

definition advice_templates :: "(pystr \<times> template) list" where
  "advice_templates = [
     (str ''family'', family_template),
     (str ''criminal'', criminal_template),
     (str ''civil'', civil_template),
     (str ''property'', property_template),
     (str ''employment'', employment_template),
     (str ''consumer'', consumer_template)]"

text \<open>
  \<^verbatim>\<open>
  template = advice_templates.get(category, advice_templates['civil'])
  customized_steps = template['steps'].copy()
  if extracted_info['amounts']:
      customized_steps.append(f"The monetary value involved
          ({', '.join(extracted_info['amounts'])}) may affect the jurisdiction and court fees")
  if extracted_info['dates']:
      customized_steps.append("Pay attention to limitation periods for legal action")
  return {'recommended_steps': customized_steps,
          'applicable_laws': template['laws'],
          'urgency_level': self.assess_urgency(text, category)}
  \<close>
  \<open>advice_templates['civil']\<close> is \<open>civil_template\<close>, the entry stored under that key.
\<close>

definition amounts_step :: "pystr list \<Rightarrow> pystr" where
  "amounts_step xs =
     str ''The monetary value involved ('' @ join (str '', '') xs
       @ str '') may affect the jurisdiction and court fees''"

definition dates_step :: pystr where
  "dates_step = str ''Pay attention to limitation periods for legal action''"

definition dict_get :: "('k \<times> 'v) list \<Rightarrow> 'k \<Rightarrow> 'v \<Rightarrow> 'v" where
  "dict_get d key dflt = (case map_of d key of None \<Rightarrow> dflt | Some v \<Rightarrow> v)"

definition generate_legal_advice :: "pystr \<Rightarrow> pystr \<Rightarrow> extracted_info \<Rightarrow> advice" where
  "generate_legal_advice category text extracted_info =
     (let template = dict_get advice_templates category civil_template;
          customized_steps = steps template;
          customized_steps =
            (if amounts extracted_info \<noteq> []
             then customized_steps @ [amounts_step (amounts extracted_info)]
             else customized_steps);
          customized_steps =
            (if dates extracted_info \<noteq> []
             then customized_steps @ [dates_step]
             else customized_steps)
      in \<lparr>recommended_steps = customized_steps,
          applicable_laws = laws template,
          urgency_level = assess_urgency text category\<rparr>)"

section \<open>Regular expressions\<close>

text \<open>
  The two patterns of \<open>extract_key_info\<close> are searched with \<open>re.findall\<close>. A matcher
  is a function that, given the character before the current position (\<open>None\<close> at the
  start of the text) and the rest of the text from that position, returns the length of
  the match the backtracking engine finds there, or \<open>None\<close>.
\<close>

type_synonym matcher = "nat option \<Rightarrow> pystr \<Rightarrow> nat option"

text \<open>
  The patterns are \<open>str\<close> patterns, so \<open>\d\<close>, \<open>\w\<close> and \<open>\b\<close> follow the Unicode character
  database of the interpreter: \<open>\d\<close> is every decimal digit, \<open>\w\<close> every alphanumeric
  character and the underscore. On the ASCII range the classes are written out. Beyond
  it they are the database's, which is not part of the program: it is the parameter
  \<open>uc\<close> of the model, \<open>decimal_digit uc c\<close> saying that the code point \<open>c\<close> is a
  decimal digit and \<open>alphanumeric uc c\<close> that it is another alphanumeric character.
  Every digit is a word character, as in the interpreter, where a decimal digit is
  alphanumeric.
\<close>

record unicode_classes =
  decimal_digit :: "nat \<Rightarrow> bool"
  alphanumeric :: "nat \<Rightarrow> bool"

definition is_digit :: "unicode_classes \<Rightarrow> nat \<Rightarrow> bool" where
  "is_digit uc c = (if c < 128 then 48 \<le> c \<and> c \<le> 57 else decimal_digit uc c)"

definition is_word_char :: "unicode_classes \<Rightarrow> nat \<Rightarrow> bool" where
  "is_word_char uc c =
     (is_digit uc c
      \<or> (if c < 128 then (65 \<le> c \<and> c \<le> 90) \<or> (97 \<le> c \<and> c \<le> 122) \<or> c = 95
          else alphanumeric uc c))"

text \<open>
  An example of such a database, for concrete runs: it knows the Devanagari digits
  U+0966..U+096F and the Devanagari letters U+0904..U+0939, and nothing else beyond
  ASCII.
\<close>

definition devanagari_classes :: unicode_classes where
  "devanagari_classes = \<lparr>
     decimal_digit = (\<lambda>c. 0x966 \<le> c \<and> c \<le> 0x96F),
     alphanumeric = (\<lambda>c. 0x904 \<le> c \<and> c \<le> 0x939)\<rparr>"

text \<open>
  \<open>\s\<close>: the ASCII white space and the Unicode white space beyond it.
\<close>

definition is_space :: "nat \<Rightarrow> bool" where
  "is_space c =
     ((9 \<le> c \<and> c \<le> 13) \<or> (28 \<le> c \<and> c \<le> 32)
      \<or> c \<in> {0x85, 0xA0, 0x1680, 0x2028, 0x2029, 0x202F, 0x205F, 0x3000}
      \<or> (0x2000 \<le> c \<and> c \<le> 0x200A))"

text \<open>
  \<open>re.IGNORECASE\<close>: whether the character \<open>c\<close> of the text matches the lower-case
  ASCII letter \<open>k\<close> of a pattern. Beyond the two ASCII cases of a letter, \<open>i\<close> also
  matches U+0130 and U+0131, \<open>k\<close> the Kelvin sign U+212A and \<open>s\<close> the long s U+017F.
\<close>

definition ignorecase_eq :: "nat \<Rightarrow> nat \<Rightarrow> bool" where
  "ignorecase_eq c k =
     (lower_char c = k
      \<or> (k = 105 \<and> (c = 0x130 \<or> c = 0x131))
      \<or> (k = 107 \<and> c = 0x212A)
      \<or> (k = 115 \<and> c = 0x17F))"

fun ignorecase_startswith :: "pystr \<Rightarrow> pystr \<Rightarrow> bool" where
  "ignorecase_startswith s [] = True"
| "ignorecase_startswith [] (k # w) = False"
| "ignorecase_startswith (c # s) (k # w) = (ignorecase_eq c k \<and> ignorecase_startswith s w)"

text \<open>\<open>[-/]\<close>\<close>

definition is_sep :: "nat \<Rightarrow> bool" where
  "is_sep c = (c = 45 \<or> c = 47)"

text \<open>
  \<open>\b\<close>: the characters on the two sides of the position differ in being word
  characters, the start and the end of the text counting as non-word.
\<close>

definition at_boundary :: "unicode_classes \<Rightarrow> nat option \<Rightarrow> pystr \<Rightarrow> bool" where
  "at_boundary uc prev rest =
     ((case prev of None \<Rightarrow> False | Some c \<Rightarrow> is_word_char uc c)
        \<noteq> (case rest of [] \<Rightarrow> False | c # _ \<Rightarrow> is_word_char uc c))"

text \<open>
  \<open>\d{m,n}\<close> is greedy: the numbers of digits it can take at the head of \<open>s\<close>, in the
  order in which backtracking tries them (most first).
\<close>

definition digit_counts :: "unicode_classes \<Rightarrow> nat \<Rightarrow> nat \<Rightarrow> pystr \<Rightarrow> nat list" where
  "digit_counts uc m n s =
     [k \<leftarrow> rev [m ..< Suc n]. k \<le> length (takeWhile (is_digit uc) s)]"

definition sep_at :: "pystr \<Rightarrow> bool" where
  "sep_at s = (case s of [] \<Rightarrow> False | c # _ \<Rightarrow> is_sep c)"

text \<open>
  \<^verbatim>\<open>date_pattern = r'\b\d{1,2}[-/]\d{1,2}[-/]\d{2,4}\b'\<close>

  The comprehension lists the lengths of all ways to match at this position in the
  order of the backtracking search; the engine returns the first.
\<close>

definition date_pattern :: "unicode_classes \<Rightarrow> matcher" where
  "date_pattern uc prev s =
     (if at_boundary uc prev s then
        (case [a + 1 + b + 1 + c.
                 a \<leftarrow> digit_counts uc 1 2 s,
                 sep_at (drop a s),
                 b \<leftarrow> digit_counts uc 1 2 (drop (a + 1) s),
                 sep_at (drop (a + 1 + b) s),
                 c \<leftarrow> digit_counts uc 2 4 (drop (a + 1 + b + 1) s),
                 at_boundary uc (Some (s ! (a + 1 + b + 1 + c - 1)))
                   (drop (a + 1 + b + 1 + c) s)]
         of [] \<Rightarrow> None | n # _ \<Rightarrow> Some n)
      else None)"

text \<open>
  \<^verbatim>\<open>amount_pattern = r'R\s*\d+(?:,\d+)*|\$\s*\d+(?:,\d+)*|\d+\s*(?:rupees|dollars|lakh|crore)'\<close>
  where \<open>R\<close> stands for the rupee sign U+20B9, searched with \<open>re.IGNORECASE\<close>.

  \<open>grouped_digits s\<close> is the length of the longest prefix of \<open>s\<close> made of digits and
  commas in which every comma is followed by a digit: when \<open>s\<close> starts with a digit, that
  is what the greedy \<open>\d+(?:,\d+)*\<close> takes. Nothing follows it in the pattern, so the
  engine never backtracks into it. In the third alternative fewer digits or fewer spaces
  would leave a digit or a space where the unit word must start, so there too the greedy
  choice is the only match. The unit words are compared letter by letter as
  \<open>re.IGNORECASE\<close> does.
\<close>

fun grouped_digits :: "unicode_classes \<Rightarrow> pystr \<Rightarrow> nat" where
  "grouped_digits uc [] = 0"
| "grouped_digits uc (c # s) =
     (if is_digit uc c then 1 + grouped_digits uc s
      else if c = 44 \<and> (case s of [] \<Rightarrow> False | d # _ \<Rightarrow> is_digit uc d)
        then 1 + grouped_digits uc s
      else 0)"

definition currency_amount :: "unicode_classes \<Rightarrow> pystr \<Rightarrow> nat option" where
  "currency_amount uc s =
     (let spaces = length (takeWhile is_space s);
          rest = drop spaces s
      in case rest of
           [] \<Rightarrow> None
         | d # _ \<Rightarrow> if is_digit uc d then Some (spaces + grouped_digits uc rest) else None)"

definition unit_words :: "pystr list" where
  "unit_words = map str [''rupees'', ''dollars'', ''lakh'', ''crore'']"

definition unit_amount :: "unicode_classes \<Rightarrow> pystr \<Rightarrow> nat option" where
  "unit_amount uc s =
     (let digits = length (takeWhile (is_digit uc) s);
          spaces = length (takeWhile is_space (drop digits s));
          rest = drop (digits + spaces) s
      in if digits = 0 then None
         else case [w \<leftarrow> unit_words. ignorecase_startswith rest w] of
                [] \<Rightarrow> None
              | w # _ \<Rightarrow> Some (digits + spaces + length w))"

definition amount_pattern :: "unicode_classes \<Rightarrow> matcher" where
  "amount_pattern uc prev s =
     (case s of
        [] \<Rightarrow> None
      | c # rest \<Rightarrow>
          if c = 0x20B9 \<or> c = 36 then map_option Suc (currency_amount uc rest)
          else unit_amount uc s)"

text \<open>
  \<open>re.findall(pattern, text)\<close> for a pattern without capturing groups: the matches from
  left to right, each search starting where the last match ended. \<open>scan\<close> walks the text
  once; \<open>skip\<close> counts the characters of the last match that are still to be passed.
\<close>

fun scan :: "matcher \<Rightarrow> nat \<Rightarrow> nat option \<Rightarrow> pystr \<Rightarrow> pystr list" where
  "scan m skip prev [] =
     (case m prev [] of None \<Rightarrow> [] | Some n \<Rightarrow> if skip = 0 then [[]] else [])"
| "scan m (Suc k) prev (c # cs) = scan m k (Some c) cs"
| "scan m 0 prev (c # cs) =
     (case m prev (c # cs) of
        None \<Rightarrow> scan m 0 (Some c) cs
      | Some n \<Rightarrow> take n (c # cs) # scan m (n - 1) (Some c) cs)"

definition findall :: "matcher \<Rightarrow> pystr \<Rightarrow> pystr list" where
  "findall m text = scan m 0 None text"

section \<open>Extraction of key information\<close>

text \<open>
  \<^verbatim>\<open>
  keywords = {
      'english': ['contract', 'agreement', 'dispute', 'court', 'lawyer', 'case', 'legal', 'law'],
      'hindi': [...6 words...],
      'marathi': [...6 words...]
  }
  \<close>
  This dictionary is \<open>keyword_table\<close>, with its entries in the order of the source,
  which is the order in which \<open>items()\<close> yields them. The Devanagari words are given by
  their code points.
\<close>

definition nyayalaya :: pystr where
  "nyayalaya = [0x928, 0x94D, 0x92F, 0x93E, 0x92F, 0x93E, 0x932, 0x92F]"

definition vakil :: pystr where
  "vakil = [0x935, 0x915, 0x940, 0x932]"

definition keyword_table :: "(pystr \<times> pystr list) list" where
  "keyword_table = [
     (str ''english'', map str [''contract'', ''agreement'', ''dispute'', ''court'',
        ''lawyer'', ''case'', ''legal'', ''law'']),
     (str ''hindi'', [
        [0x915, 0x93E, 0x928, 0x942, 0x928, 0x940],
        nyayalaya,
        vakil,
        [0x92E, 0x93E, 0x92E, 0x932, 0x93E],
        [0x935, 0x93F, 0x935, 0x93E, 0x926],
        [0x938, 0x92E, 0x91D, 0x94C, 0x924, 0x93E]]),
     (str ''marathi'', [
        [0x915, 0x93E, 0x92F, 0x926, 0x947, 0x936, 0x940, 0x930],
        nyayalaya,
        vakil,
        [0x92A, 0x94D, 0x930, 0x915, 0x930, 0x923],
        [0x935, 0x93E, 0x926],
        [0x915, 0x930, 0x93E, 0x930]])]"

text \<open>
  \<^verbatim>\<open>
  extracted_info['dates'] = re.findall(date_pattern, text)
  extracted_info['amounts'] = re.findall(amount_pattern, text, re.IGNORECASE)
  text_lower = text.lower()
  for lang, words in keywords.items():
      for word in words:
          if word.lower() in text_lower:
              extracted_info['legal_keywords'].append(word)
  \<close>
\<close>

definition find_legal_keywords :: "pystr \<Rightarrow> pystr list" where
  "find_legal_keywords text_lower =
     fold (\<lambda>(lang, words) found.
             fold (\<lambda>word found.
                     if is_in (lower word) text_lower then found @ [word] else found)
                  words found)
          keyword_table []"

definition extract_key_info :: "unicode_classes \<Rightarrow> pystr \<Rightarrow> extracted_info" where
  "extract_key_info uc text =
     (let text_lower = lower text
      in \<lparr>parties_involved = [],
          legal_keywords = find_legal_keywords text_lower,
          dates = findall (date_pattern uc) text,
          amounts = findall (amount_pattern uc) text,
          locations = []\<rparr>)"

text \<open>
  The shape of a date, read off its three digit groups: \<open>date_form uc ls d\<close> holds when
  \<open>d\<close> is one or two digits, a separator, one or two digits, a separator and a final
  group of digits whose length is in \<open>ls\<close>. The specification's wording is
  \<open>date_form uc [2, 4]\<close>.
\<close>

definition date_form :: "unicode_classes \<Rightarrow> nat list \<Rightarrow> pystr \<Rightarrow> bool" where
  "date_form uc ls d =
     (let a = takeWhile (is_digit uc) d; r1 = dropWhile (is_digit uc) d
      in case r1 of
           [] \<Rightarrow> False
         | s1 # r2 \<Rightarrow>
             (let b = takeWhile (is_digit uc) r2; r3 = dropWhile (is_digit uc) r2
              in case r3 of
                   [] \<Rightarrow> False
                 | s2 # c \<Rightarrow>
                     is_sep s1 \<and> is_sep s2 \<and> list_all (is_digit uc) c
                     \<and> length a \<in> {1, 2} \<and> length b \<in> {1, 2} \<and> length c \<in> set ls))"

text \<open>A token between \<open>before\<close> and \<open>after\<close> has no word character next to it.\<close>

definition word_bounded :: "unicode_classes \<Rightarrow> pystr \<Rightarrow> pystr \<Rightarrow> bool" where
  "word_bounded uc before after =
     ((before = [] \<or> \<not> is_word_char uc (last before))
      \<and> (after = [] \<or> \<not> is_word_char uc (hd after)))"

section \<open>Classification and sentiment\<close>

text \<open>
  The classifier and the sentiment analyser are external services: a call either raises
  or returns some Python value, of whatever shape. The values are the JSON-like ones
  (numbers, strings, lists, dictionaries with string keys); a score is a \<open>PFloat\<close>,
  carried as a real number since the code only passes it on.
\<close>

datatype exn = KeyError | IndexError | TypeError | ServiceError

datatype pyval =
    PNone
  | PBool bool
  | PInt int
  | PFloat real
  | PStr pystr
  | PList "pyval list"
  | PDict "(pystr \<times> pyval) list"

text \<open>\<open>obj[key]\<close> for a string key, then \<open>obj[i]\<close> for an integer subscript.\<close>

fun getitem_str :: "pyval \<Rightarrow> pystr \<Rightarrow> exn + pyval" where
  "getitem_str (PDict kvs) key =
     (case map_of kvs key of None \<Rightarrow> Inl KeyError | Some v \<Rightarrow> Inr v)"
| "getitem_str v key = Inl TypeError"

text \<open>
  Where an integer subscript lands in a sequence of \<open>len\<close> items: a subscript below
  zero is taken from the end, and one outside the sequence lands nowhere.
\<close>

definition item_position :: "int \<Rightarrow> nat \<Rightarrow> nat option" where
  "item_position i len =
     (if 0 \<le> i \<and> i < int len then Some (nat i)
      else if - int len \<le> i \<and> i < 0 then Some (nat (i + int len))
      else None)"

fun getitem_int :: "pyval \<Rightarrow> int \<Rightarrow> exn + pyval" where
  "getitem_int (PList xs) i =
     (case item_position i (length xs) of
        None \<Rightarrow> Inl IndexError
      | Some k \<Rightarrow> Inr (xs ! k))"
| "getitem_int (PStr s) i =
     (case item_position i (length s) of
        None \<Rightarrow> Inl IndexError
      | Some k \<Rightarrow> Inr (PStr [s ! k]))"
| "getitem_int (PDict kvs) i = Inl KeyError"
| "getitem_int v i = Inl TypeError"

text \<open>Sequencing inside a \<open>try\<close> block: the first exception ends the block.\<close>

definition and_then :: "exn + 'a \<Rightarrow> ('a \<Rightarrow> exn + 'b) \<Rightarrow> exn + 'b" where
  "and_then m f = (case m of Inl e \<Rightarrow> Inl e | Inr x \<Rightarrow> f x)"

text \<open>\<open>first_of result key\<close> is \<open>result[key][0]\<close>.\<close>

definition first_of :: "pyval \<Rightarrow> pystr \<Rightarrow> exn + pyval" where
  "first_of result key = and_then (getitem_str result key) (\<lambda>xs. getitem_int xs 0)"

definition legal_categories :: "(pystr \<times> pystr list) list" where
  "legal_categories = [
     (str ''family'', map str [''divorce'', ''custody'', ''marriage'', ''property'', ''inheritance'']),
     (str ''criminal'', map str [''theft'', ''assault'', ''fraud'', ''harassment'', ''violence'']),
     (str ''civil'', map str [''contract'', ''debt'', ''defamation'', ''negligence'', ''breach'']),
     (str ''property'', map str [''rent'', ''eviction'', ''ownership'', ''dispute'', ''registration'']),
     (str ''employment'', map str [''salary'', ''termination'', ''harassment'', ''rights'', ''compensation'']),
     (str ''consumer'', map str [''refund'', ''warranty'', ''service'', ''product'', ''complaint''])]"

text \<open>
  \<open>self.legal_categories.get(key, [])\<close>: a list or a dictionary is unhashable and makes
  the lookup raise; any other value that is not one of the six keys gives the default.
\<close>

fun legal_categories_get :: "pyval \<Rightarrow> exn + pystr list" where
  "legal_categories_get (PStr s) = Inr (dict_get legal_categories s [])"
| "legal_categories_get (PList xs) = Inl TypeError"
| "legal_categories_get (PDict kvs) = Inl TypeError"
| "legal_categories_get v = Inr []"

text \<open>
  The values a dictionary accepts as a key: everything but a list and a dictionary.
\<close>

fun hashable :: "pyval \<Rightarrow> bool" where
  "hashable (PList xs) = False"
| "hashable (PDict kvs) = False"
| "hashable v = True"

record category_info =
  category :: pyval
  confidence :: pyval
  subcategories :: "pystr list"

text \<open>
  \<^verbatim>\<open>
  def categorize_legal_issue(self, text):
      try:
          categories = list(self.legal_categories.keys())
          result = self.classifier(text, categories)
          primary_category = result['labels'][0]
          confidence = result['scores'][0]
          return {'category': primary_category,
                  'confidence': confidence,
                  'subcategories': self.legal_categories.get(primary_category, [])}
      except:
          return {'category': 'general', 'confidence': 0.5, 'subcategories': []}
  \<close>
  \<open>categorize_try\<close> is the body of the \<open>try\<close>.
\<close>

definition categorize_try ::
  "(pystr \<Rightarrow> pystr list \<Rightarrow> exn + pyval) \<Rightarrow> pystr \<Rightarrow> exn + category_info" where
  "categorize_try classifier text =
     (let categories = map fst legal_categories in
      and_then (classifier text categories) (\<lambda>result.
      and_then (first_of result (str ''labels'')) (\<lambda>primary_category.
      and_then (first_of result (str ''scores'')) (\<lambda>confidence.
      and_then (legal_categories_get primary_category) (\<lambda>subcategories.
      Inr \<lparr>category = primary_category,
           confidence = confidence,
           subcategories = subcategories\<rparr>)))))"

definition categorize_legal_issue ::
  "(pystr \<Rightarrow> pystr list \<Rightarrow> exn + pyval) \<Rightarrow> pystr \<Rightarrow> category_info" where
  "categorize_legal_issue classifier text =
     (case categorize_try classifier text of
        Inr info \<Rightarrow> info
      | Inl e \<Rightarrow> \<lparr>category = PStr (str ''general''),
                   confidence = PFloat 0.5,
                   subcategories = []\<rparr>)"



definition general_category :: category_info where
  "general_category = \<lparr>category = PStr (str ''general''),
     confidence = PFloat 0.5,
     subcategories = []\<rparr>"

text \<open>
  A service whose call has a fixed outcome, whatever the text; and the reading of
  "lies within [0,1]" for a Python value.
\<close>

definition classifier_giving :: "exn + pyval \<Rightarrow> pystr \<Rightarrow> pystr list \<Rightarrow> exn + pyval" where
  "classifier_giving outcome text labels = outcome"



text \<open>The seven category values of the specification.\<close>

definition enumerated_categories :: "pyval list" where
  "enumerated_categories = map (PStr \<circ> str) [''family'', ''criminal'', ''civil'',
     ''property'', ''employment'', ''consumer'', ''general'']"

section \<open>Substring search\<close>

lemma startswith_iff_prefix: "startswith s sub \<longleftrightarrow> prefix sub s"
  by (induction s sub rule: startswith.induct) auto

lemma is_in_iff_sublist: "is_in sub s \<longleftrightarrow> sublist sub s"
  by (induction s) (simp_all add: startswith_iff_prefix sublist_Cons_right)

section \<open>Properties of the urgency assessment\<close>

lemma fold_hits:
  "fold (\<lambda>k (n::int). if P k then n + 1 else n) ks a = a + int (length (filter P ks))"
  by (induction ks arbitrary: a) simp_all

lemma keyword_hits_filter:
  "keyword_hits ks t = int (length (filter (\<lambda>k. sublist k t) ks))"
  by (simp add: keyword_hits_def fold_hits is_in_iff_sublist)

lemma keyword_hits_nonneg: "0 \<le> keyword_hits ks t"
  by (simp add: keyword_hits_filter)

lemma distinct_urgent_keywords: "distinct urgent_keywords"
  by (simp add: urgent_keywords_def str_def)

lemma keyword_hits_card:
  "keyword_hits urgent_keywords t = int (card {k \<in> set urgent_keywords. sublist k t})"
proof -
  have "distinct (filter (\<lambda>k. sublist k t) urgent_keywords)"
    using distinct_urgent_keywords by simp
  then have "card (set (filter (\<lambda>k. sublist k t) urgent_keywords))
      = length (filter (\<lambda>k. sublist k t) urgent_keywords)"
    by (rule distinct_card)
  moreover have "set (filter (\<lambda>k. sublist k t) urgent_keywords)
      = {k \<in> set urgent_keywords. sublist k t}"
    by (rule set_filter)
  ultimately show ?thesis
    by (simp add: keyword_hits_filter)
qed

text \<open>
  C8. For every text, the tier returned for category \<open>criminal\<close> is at least the tier
  returned for the same text with category \<open>civil\<close>, in the order LOW < MEDIUM < HIGH.
\<close>

theorem criminal_not_lower_than_civil:
  "tier_rank (assess_urgency text (str ''civil''))
     \<le> tier_rank (assess_urgency text (str ''criminal''))"
proof -
  have ne: "str ''civil'' \<noteq> str ''criminal''"
    by (simp add: str_def)
  show ?thesis
    using keyword_hits_nonneg [of urgent_keywords "lower text"]
    by (simp add: assess_urgency_def urgency_score_def Let_def ne)
qed

text \<open>
  C9. For every text, the assessment with category \<open>criminal\<close> never returns LOW: the
  bonus of 2 alone reaches the MEDIUM threshold, so the result is MEDIUM or HIGH, also
  when the text holds no urgent keyword.
\<close>

theorem criminal_never_low:
  "assess_urgency text (str ''criminal'') \<noteq> LOW
   \<and> assess_urgency text (str ''criminal'') \<in> {MEDIUM, HIGH}
   \<and> assess_urgency [] (str ''criminal'') = MEDIUM"
  using keyword_hits_nonneg [of urgent_keywords "lower text"]
  by (simp add: assess_urgency_def urgency_score_def Let_def keyword_hits_def
      urgent_keywords_def str_def lower_def)

text \<open>
  C1, as stated, fails. The text \<open>urgent urgent urgent\<close> holds three occurrences of one
  urgent keyword and the category is not \<open>criminal\<close>, so the score the claim describes
  is 3 and its tier HIGH; the code counts the keyword once and returns MEDIUM.
\<close>

theorem repeated_keyword_counterexample:
  "spec_urgency_score (str ''urgent urgent urgent'') (str ''civil'') = 3
   \<and> spec_assess_urgency (str ''urgent urgent urgent'') (str ''civil'') = HIGH
   \<and> assess_urgency (str ''urgent urgent urgent'') (str ''civil'') = MEDIUM"
  by (simp add: spec_assess_urgency_def spec_urgency_score_def assess_urgency_def
      urgency_score_def keyword_hits_def urgent_keywords_def str_def lower_def lower_char_def)

text \<open>
  C1, amended. For every text and category, the score is the number of distinct urgent
  keywords that occur at least once as a substring of the lower-cased text (each keyword
  counts once, however often it occurs), plus 2 when the category equals \<open>criminal\<close>;
  the result is HIGH when the score is at least 3, MEDIUM when it is at least 1, LOW
  otherwise. In particular a text with three different urgent keywords and a
  non-criminal category is HIGH.
\<close>

theorem assess_urgency_counts_distinct_keywords:
  "urgency_score text cat =
      int (card {k \<in> set urgent_keywords. sublist k (lower text)})
        + (if cat = str ''criminal'' then 2 else 0)
   \<and> assess_urgency text cat =
      (if urgency_score text cat \<ge> 3 then HIGH
       else if urgency_score text cat \<ge> 1 then MEDIUM
       else LOW)
   \<and> assess_urgency (str ''Urgent: THREAT of eviction'') (str ''civil'') = HIGH"
proof -
  have "assess_urgency (str ''Urgent: THREAT of eviction'') (str ''civil'') = HIGH"
    by (simp add: assess_urgency_def urgency_score_def keyword_hits_def urgent_keywords_def
        str_def lower_def lower_char_def)
  then show ?thesis
    by (simp add: urgency_score_def assess_urgency_def Let_def keyword_hits_card)
qed

section \<open>Properties of the advice\<close>

lemma steps_count: "length (steps (dict_get advice_templates cat civil_template)) = 5"
  by (simp add: dict_get_def advice_templates_def family_template_def criminal_template_def
      civil_template_def property_template_def employment_template_def consumer_template_def)

lemma civil_entry: "map_of advice_templates (str ''civil'') = Some civil_template"
  by (simp add: advice_templates_def str_def)

lemma recommended_steps_eq:
  "recommended_steps (generate_legal_advice cat text info) =
     steps (dict_get advice_templates cat civil_template)
       @ (if amounts info \<noteq> [] then [amounts_step (amounts info)] else [])
       @ (if dates info \<noteq> [] then [dates_step] else [])"
  by (simp add: generate_legal_advice_def Let_def)

lemma applicable_laws_eq:
  "applicable_laws (generate_legal_advice cat text info) =
     laws (dict_get advice_templates cat civil_template)"
  by (simp add: generate_legal_advice_def Let_def)

lemma unknown_key:
  "cat \<notin> set (map str [''family'', ''criminal'', ''civil'', ''property'', ''employment'',
      ''consumer''])
   \<Longrightarrow> dict_get advice_templates cat civil_template = civil_template"
  by (simp add: dict_get_def advice_templates_def)

lemma template_of_entry:
  "list_all (\<lambda>(k, t). dict_get advice_templates k civil_template = t) advice_templates"
  by (simp add: dict_get_def advice_templates_def str_def)

lemma template_lookup:
  "dict_get advice_templates cat civil_template =
     (case map_of advice_templates cat of None \<Rightarrow> civil_template | Some t \<Rightarrow> t)"
  by (simp add: dict_get_def)

text \<open>
  C3. For every category string, text and extracted information, the recommended steps
  are the base steps of the category's template, then one step if the amounts are
  non-empty, then one step if the dates are non-empty: the length is the base count plus
  one for each, the base steps are a prefix and are not replaced, and the amounts step
  comes before the dates step. The template of a category is its entry in the table of
  six templates (so each of the six keys gets its own steps), the civil template for any
  other string; every template has five base steps.
\<close>

theorem recommended_steps_appended:
  "recommended_steps (generate_legal_advice cat text info) =
     steps (case map_of advice_templates cat of None \<Rightarrow> civil_template | Some t \<Rightarrow> t)
       @ (if amounts info \<noteq> [] then [amounts_step (amounts info)] else [])
       @ (if dates info \<noteq> [] then [dates_step] else [])
   \<and> length (recommended_steps (generate_legal_advice cat text info)) =
     length (steps (case map_of advice_templates cat of None \<Rightarrow> civil_template | Some t \<Rightarrow> t))
       + (if amounts info \<noteq> [] then 1 else 0)
       + (if dates info \<noteq> [] then 1 else 0)
   \<and> prefix (steps (case map_of advice_templates cat of None \<Rightarrow> civil_template | Some t \<Rightarrow> t))
        (recommended_steps (generate_legal_advice cat text info))
   \<and> length (steps (case map_of advice_templates cat of None \<Rightarrow> civil_template | Some t \<Rightarrow> t))
        = 5
   \<and> list_all (\<lambda>(k, t). recommended_steps (generate_legal_advice k text info) =
          steps t
            @ (if amounts info \<noteq> [] then [amounts_step (amounts info)] else [])
            @ (if dates info \<noteq> [] then [dates_step] else []))
        [(str ''family'', family_template), (str ''criminal'', criminal_template),
         (str ''civil'', civil_template), (str ''property'', property_template),
         (str ''employment'', employment_template), (str ''consumer'', consumer_template)]
   \<and> amounts_step (amounts info) =
        str ''The monetary value involved ('' @ join (str '', '') (amounts info)
          @ str '') may affect the jurisdiction and court fees''
   \<and> dates_step = str ''Pay attention to limitation periods for legal action''"
proof -
  have a: "recommended_steps (generate_legal_advice cat text info) =
     steps (case map_of advice_templates cat of None \<Rightarrow> civil_template | Some t \<Rightarrow> t)
       @ (if amounts info \<noteq> [] then [amounts_step (amounts info)] else [])
       @ (if dates info \<noteq> [] then [dates_step] else [])"
    by (simp only: recommended_steps_eq template_lookup)
  have n: "length (steps (case map_of advice_templates cat of None \<Rightarrow> civil_template
      | Some t \<Rightarrow> t)) = 5"
    using steps_count [of cat] by (simp only: template_lookup)
  have b: "length (recommended_steps (generate_legal_advice cat text info)) =
     length (steps (case map_of advice_templates cat of None \<Rightarrow> civil_template | Some t \<Rightarrow> t))
       + (if amounts info \<noteq> [] then 1 else 0)
       + (if dates info \<noteq> [] then 1 else 0)"
    unfolding a by simp
  have c: "prefix (steps (case map_of advice_templates cat of None \<Rightarrow> civil_template
      | Some t \<Rightarrow> t)) (recommended_steps (generate_legal_advice cat text info))"
    unfolding a by simp
  have d: "list_all (\<lambda>(k, t). recommended_steps (generate_legal_advice k text info) =
          steps t
            @ (if amounts info \<noteq> [] then [amounts_step (amounts info)] else [])
            @ (if dates info \<noteq> [] then [dates_step] else []))
        [(str ''family'', family_template), (str ''criminal'', criminal_template),
         (str ''civil'', civil_template), (str ''property'', property_template),
         (str ''employment'', employment_template), (str ''consumer'', consumer_template)]"
    using template_of_entry
    by (simp add: recommended_steps_eq advice_templates_def)
  have e: "amounts_step (amounts info) =
        str ''The monetary value involved ('' @ join (str '', '') (amounts info)
          @ str '') may affect the jurisdiction and court fees''"
    by (simp only: amounts_step_def)
  have f: "dates_step = str ''Pay attention to limitation periods for legal action''"
    by (simp only: dates_step_def)
  show ?thesis
    by (rule conjI [OF a conjI [OF b conjI [OF c conjI [OF n conjI [OF d conjI [OF e f]]]]]])
qed

text \<open>
  C4. For every category string that is not one of the six template keys, \<open>general\<close>
  among them, the advice has the laws of the civil template and its steps are the civil
  template's steps followed by the customization; the civil template is the entry of the
  table under the key \<open>civil\<close>.
\<close>

theorem unknown_category_gets_civil:
  assumes "cat \<notin> set (map str [''family'', ''criminal'', ''civil'', ''property'',
             ''employment'', ''consumer''])"
  shows "applicable_laws (generate_legal_advice cat text info) = laws civil_template
    \<and> recommended_steps (generate_legal_advice cat text info) =
        steps civil_template
          @ (if amounts info \<noteq> [] then [amounts_step (amounts info)] else [])
          @ (if dates info \<noteq> [] then [dates_step] else [])
    \<and> map_of advice_templates (str ''civil'') = Some civil_template"
  using unknown_key [OF assms]
  by (simp add: recommended_steps_eq applicable_laws_eq civil_entry)

theorem unknown_category_gets_civil_witness:
  "str ''general'' \<notin> set (map str [''family'', ''criminal'', ''civil'', ''property'',
             ''employment'', ''consumer''])
   \<and> applicable_laws (generate_legal_advice (str ''general'') []
        \<lparr>parties_involved = [], legal_keywords = [], dates = [], amounts = [], locations = []\<rparr>)
      = laws civil_template
   \<and> recommended_steps (generate_legal_advice (str ''general'') []
        \<lparr>parties_involved = [], legal_keywords = [], dates = [], amounts = [], locations = []\<rparr>)
      = steps civil_template"
proof -
  have h: "str ''general'' \<notin> set (map str [''family'', ''criminal'', ''civil'', ''property'',
             ''employment'', ''consumer''])"
    by (simp add: str_def)
  show ?thesis
    using h unknown_category_gets_civil [OF h, of "[]"
        "\<lparr>parties_involved = [], legal_keywords = [], dates = [], amounts = [], locations = []\<rparr>"]
    by simp
qed

section \<open>Failure of the classifier\<close>

lemma categorize_cases:
  "categorize_legal_issue classifier text = general_category
   \<or> (\<exists>result label score subs.
         classifier text (map fst legal_categories) = Inr result
       \<and> first_of result (str ''labels'') = Inr label
       \<and> first_of result (str ''scores'') = Inr score
       \<and> legal_categories_get label = Inr subs
       \<and> categorize_legal_issue classifier text =
           \<lparr>category = label, confidence = score, subcategories = subs\<rparr>)"
  by (auto simp add: categorize_legal_issue_def categorize_try_def and_then_def
      general_category_def Let_def split: sum.splits)

lemma categorize_failure:
  "classifier text (map fst legal_categories) = Inl e
   \<or> (\<exists>result. classifier text (map fst legal_categories) = Inr result
        \<and> (first_of result (str ''labels'') = Inl e \<or> first_of result (str ''scores'') = Inl e))
   \<Longrightarrow> categorize_legal_issue classifier text = general_category"
  by (auto simp add: categorize_legal_issue_def categorize_try_def and_then_def
      general_category_def Let_def split: sum.splits)


text \<open>
  C7. When the classifier call raises, or returns a result from which
  \<open>result['labels'][0]\<close> or \<open>result['scores'][0]\<close> cannot be read, the categorization
  is exactly \<open>general\<close> with confidence 0.5 and no subcategories, and the advice generated
  for the category \<open>general\<close> has the civil template's steps (followed by the
  customization) and the civil template's laws.
\<close>

theorem classifier_failure_gives_general:
  assumes "classifier text (map fst legal_categories) = Inl e
   \<or> (\<exists>result. classifier text (map fst legal_categories) = Inr result
        \<and> (first_of result (str ''labels'') = Inl e \<or> first_of result (str ''scores'') = Inl e))"
  shows "categorize_legal_issue classifier text =
      \<lparr>category = PStr (str ''general''), confidence = PFloat 0.5, subcategories = []\<rparr>
    \<and> applicable_laws (generate_legal_advice (str ''general'') text info) = laws civil_template
    \<and> recommended_steps (generate_legal_advice (str ''general'') text info) =
        steps civil_template
          @ (if amounts info \<noteq> [] then [amounts_step (amounts info)] else [])
          @ (if dates info \<noteq> [] then [dates_step] else [])"
proof -
  have "str ''general'' \<notin> set (map str [''family'', ''criminal'', ''civil'', ''property'',
      ''employment'', ''consumer''])"
    by (simp add: str_def)
  then have "dict_get advice_templates (str ''general'') civil_template = civil_template"
    by (rule unknown_key)
  moreover have "categorize_legal_issue classifier text = general_category"
    using assms by (rule categorize_failure)
  ultimately show ?thesis
    by (simp add: recommended_steps_eq applicable_laws_eq general_category_def)
qed

theorem classifier_failure_gives_general_witness:
  "categorize_legal_issue (classifier_giving (Inl ServiceError)) (str ''my case'') =
      \<lparr>category = PStr (str ''general''), confidence = PFloat 0.5, subcategories = []\<rparr>
   \<and> categorize_legal_issue (classifier_giving (Inr (PDict [(str ''labels'', PList [])])))
        (str ''my case'') =
      \<lparr>category = PStr (str ''general''), confidence = PFloat 0.5, subcategories = []\<rparr>
   \<and> applicable_laws (generate_legal_advice (str ''general'') (str ''my case'')
        (extract_key_info devanagari_classes (str ''my case''))) = laws civil_template"
proof -
  have a: "classifier_giving (Inl ServiceError) (str ''my case'') (map fst legal_categories)
      = Inl ServiceError
    \<or> (\<exists>result. classifier_giving (Inl ServiceError) (str ''my case'') (map fst legal_categories)
          = Inr result
        \<and> (first_of result (str ''labels'') = Inl ServiceError
           \<or> first_of result (str ''scores'') = Inl ServiceError))"
    by (simp add: classifier_giving_def)
  have "first_of (PDict [(str ''labels'', PList [])]) (str ''labels'') = Inl IndexError"
    by (simp add: first_of_def and_then_def item_position_def)
  then have b: "classifier_giving (Inr (PDict [(str ''labels'', PList [])])) (str ''my case'')
        (map fst legal_categories) = Inl IndexError
    \<or> (\<exists>result. classifier_giving (Inr (PDict [(str ''labels'', PList [])])) (str ''my case'')
          (map fst legal_categories) = Inr result
        \<and> (first_of result (str ''labels'') = Inl IndexError
           \<or> first_of result (str ''scores'') = Inl IndexError))"
    by (simp add: classifier_giving_def)
  show ?thesis
    using a b
      classifier_failure_gives_general [of "classifier_giving (Inl ServiceError)"
        "str ''my case''" ServiceError "extract_key_info devanagari_classes (str ''my case'')"]
      classifier_failure_gives_general [of
        "classifier_giving (Inr (PDict [(str ''labels'', PList [])]))"
        "str ''my case''" IndexError "extract_key_info devanagari_classes (str ''my case'')"]
    by simp
qed

section \<open>Scores and categories of the external services\<close>

lemma first_of_dict:
  "map_of kvs key = Some (PList (v # vs)) \<Longrightarrow> first_of (PDict kvs) key = Inr v"
  by (simp add: first_of_def and_then_def item_position_def)

lemma categorize_success:
  assumes "classifier text (map fst legal_categories) = Inr result"
    and "first_of result (str ''labels'') = Inr label"
    and "first_of result (str ''scores'') = Inr score"
    and "legal_categories_get label = Inr subs"
  shows "categorize_legal_issue classifier text =
    \<lparr>category = label, confidence = score, subcategories = subs\<rparr>"
  using assms by (simp add: categorize_legal_issue_def categorize_try_def and_then_def)

lemma categorize_unhashable:
  assumes "classifier text (map fst legal_categories) = Inr result"
    and "first_of result (str ''labels'') = Inr label"
    and "first_of result (str ''scores'') = Inr score"
    and "\<not> hashable label"
  shows "categorize_legal_issue classifier text = general_category"
  using assms
  by (cases label)
    (simp_all add: categorize_legal_issue_def categorize_try_def and_then_def
      general_category_def)

lemma subcategories_of_string:
  "legal_categories_get (PStr l) =
     Inr (case map_of legal_categories l of None \<Rightarrow> [] | Some subs \<Rightarrow> subs)"
  by (simp add: dict_get_def)

lemma subcategories_of_other:
  "hashable label \<Longrightarrow> (\<And>l. label \<noteq> PStr l) \<Longrightarrow> legal_categories_get label = Inr []"
  by (cases label) auto

lemma unknown_label: "l \<notin> set (map fst legal_categories) \<Longrightarrow> map_of legal_categories l = None"
  by (simp add: map_of_eq_None_iff)




text \<open>
  C5, as stated, fails. A top label \<open>tax\<close>, which is none of the six candidates, is
  returned as the category; it is not turned into \<open>general\<close>.
\<close>

theorem unrecognized_label_counterexample:
  "category (categorize_legal_issue
       (classifier_giving (Inr (PDict [(str ''labels'', PList [PStr (str ''tax'')]),
                                        (str ''scores'', PList [PFloat 0.9])])))
       (str ''my case'')) = PStr (str ''tax'')
   \<and> PStr (str ''tax'') \<notin> set enumerated_categories"
  by (simp add: categorize_legal_issue_def categorize_try_def and_then_def first_of_def
      classifier_giving_def item_position_def enumerated_categories_def dict_get_def
      legal_categories_def str_def)

lemma candidates_enumerated:
  "label \<in> set (map (PStr \<circ> fst) legal_categories) \<Longrightarrow> label \<in> set enumerated_categories"
  by (auto simp add: legal_categories_def enumerated_categories_def)

lemma general_enumerated: "PStr (str ''general'') \<in> set enumerated_categories"
  by (simp add: enumerated_categories_def)

text \<open>
  C5, amended. Whenever the top label and the top score of the classifier's answer can
  be read, the result is the label, unchanged, as the category, with the score and the
  subcategories of that label: the table's entry for one of the six candidates, the
  empty list for any other string and for a number, a truth value or \<open>None\<close>. The
  category is \<open>general\<close> when the call raises, when the label or the score cannot be
  read, and when the label is a list or a dictionary (the lookup of its subcategories
  raises). So the category is one of the seven enumerated values whenever the top label
  is one of the six candidates; a string label that is not a candidate is returned as it
  is, with no subcategories.
\<close>

theorem category_is_top_label_or_general:
  "(classifier text (map fst legal_categories) = Inr result
      \<longrightarrow> first_of result (str ''labels'') = Inr label
      \<longrightarrow> first_of result (str ''scores'') = Inr score
      \<longrightarrow> (hashable label \<longrightarrow> category (categorize_legal_issue classifier text) = label)
        \<and> (\<not> hashable label \<longrightarrow> categorize_legal_issue classifier text = general_category))
   \<and> (classifier text (map fst legal_categories) = Inr (PDict kvs)
      \<longrightarrow> map_of kvs (str ''labels'') = Some (PList (PStr l # ls))
      \<longrightarrow> map_of kvs (str ''scores'') = Some (PList (score # scores))
      \<longrightarrow> categorize_legal_issue classifier text =
          \<lparr>category = PStr l, confidence = score,
           subcategories = (case map_of legal_categories l of None \<Rightarrow> [] | Some subs \<Rightarrow> subs)\<rparr>
        \<and> (l \<notin> set (map fst legal_categories)
            \<longrightarrow> categorize_legal_issue classifier text =
                \<lparr>category = PStr l, confidence = score, subcategories = []\<rparr>))
   \<and> (classifier text (map fst legal_categories) = Inr result
      \<longrightarrow> first_of result (str ''labels'') = Inr label
      \<longrightarrow> first_of result (str ''scores'') = Inr score
      \<longrightarrow> hashable label \<longrightarrow> (\<forall>l. label \<noteq> PStr l)
      \<longrightarrow> categorize_legal_issue classifier text =
          \<lparr>category = label, confidence = score, subcategories = []\<rparr>)
   \<and> (classifier text (map fst legal_categories) = Inl e
      \<longrightarrow> categorize_legal_issue classifier text = general_category)
   \<and> (classifier text (map fst legal_categories) = Inr result
      \<longrightarrow> (first_of result (str ''labels'') = Inl e \<or> first_of result (str ''scores'') = Inl e)
      \<longrightarrow> categorize_legal_issue classifier text = general_category)
   \<and> category general_category = PStr (str ''general'')
   \<and> (category (categorize_legal_issue classifier text) = PStr (str ''general'')
     \<or> (\<exists>result. classifier text (map fst legal_categories) = Inr result
          \<and> first_of result (str ''labels'')
              = Inr (category (categorize_legal_issue classifier text))))
   \<and> ((\<forall>result label. classifier text (map fst legal_categories) = Inr result
          \<longrightarrow> first_of result (str ''labels'') = Inr label
          \<longrightarrow> label \<in> set (map (PStr \<circ> fst) legal_categories))
        \<longrightarrow> category (categorize_legal_issue classifier text) \<in> set enumerated_categories)
   \<and> (classifier text (map fst legal_categories) = Inr result
        \<longrightarrow> first_of result (str ''labels'') = Inr (PStr l)
        \<longrightarrow> first_of result (str ''scores'') = Inr score
        \<longrightarrow> category (categorize_legal_issue classifier text) = PStr l)"
proof -
  have p1: "classifier text (map fst legal_categories) = Inr result
      \<longrightarrow> first_of result (str ''labels'') = Inr label
      \<longrightarrow> first_of result (str ''scores'') = Inr score
      \<longrightarrow> (hashable label \<longrightarrow> category (categorize_legal_issue classifier text) = label)
        \<and> (\<not> hashable label \<longrightarrow> categorize_legal_issue classifier text = general_category)"
    using categorize_unhashable [of classifier "text" result label score]
    by (cases label)
      (simp_all add: categorize_legal_issue_def categorize_try_def and_then_def)
  have p2: "classifier text (map fst legal_categories) = Inr (PDict kvs)
      \<longrightarrow> map_of kvs (str ''labels'') = Some (PList (PStr l # ls))
      \<longrightarrow> map_of kvs (str ''scores'') = Some (PList (score # scores))
      \<longrightarrow> categorize_legal_issue classifier text =
          \<lparr>category = PStr l, confidence = score,
           subcategories = (case map_of legal_categories l of None \<Rightarrow> [] | Some subs \<Rightarrow> subs)\<rparr>
        \<and> (l \<notin> set (map fst legal_categories)
            \<longrightarrow> categorize_legal_issue classifier text =
                \<lparr>category = PStr l, confidence = score, subcategories = []\<rparr>)"
  proof (intro impI)
    assume a: "classifier text (map fst legal_categories) = Inr (PDict kvs)"
      "map_of kvs (str ''labels'') = Some (PList (PStr l # ls))"
      "map_of kvs (str ''scores'') = Some (PList (score # scores))"
    have "categorize_legal_issue classifier text =
        \<lparr>category = PStr l, confidence = score,
         subcategories = (case map_of legal_categories l of None \<Rightarrow> [] | Some subs \<Rightarrow> subs)\<rparr>"
      using a(1) first_of_dict [OF a(2)] first_of_dict [OF a(3)] subcategories_of_string
      by (rule categorize_success)
    then show "categorize_legal_issue classifier text =
          \<lparr>category = PStr l, confidence = score,
           subcategories = (case map_of legal_categories l of None \<Rightarrow> [] | Some subs \<Rightarrow> subs)\<rparr>
        \<and> (l \<notin> set (map fst legal_categories)
            \<longrightarrow> categorize_legal_issue classifier text =
                \<lparr>category = PStr l, confidence = score, subcategories = []\<rparr>)"
      using unknown_label [of l] by simp
  qed
  have p3: "classifier text (map fst legal_categories) = Inr result
      \<longrightarrow> first_of result (str ''labels'') = Inr label
      \<longrightarrow> first_of result (str ''scores'') = Inr score
      \<longrightarrow> hashable label \<longrightarrow> (\<forall>l. label \<noteq> PStr l)
      \<longrightarrow> categorize_legal_issue classifier text =
          \<lparr>category = label, confidence = score, subcategories = []\<rparr>"
    using categorize_success [of classifier "text" result label score "[]"]
      subcategories_of_other [of label]
    by blast
  have p4: "classifier text (map fst legal_categories) = Inl e
      \<longrightarrow> categorize_legal_issue classifier text = general_category"
    using categorize_failure [of classifier "text" e] by blast
  have p5: "classifier text (map fst legal_categories) = Inr result
      \<longrightarrow> (first_of result (str ''labels'') = Inl e \<or> first_of result (str ''scores'') = Inl e)
      \<longrightarrow> categorize_legal_issue classifier text = general_category"
    using categorize_failure [of classifier "text" e] by blast
  have p6: "category general_category = PStr (str ''general'')"
    by (simp add: general_category_def)
  have c: "category (categorize_legal_issue classifier text) = PStr (str ''general'')
     \<or> (\<exists>result. classifier text (map fst legal_categories) = Inr result
          \<and> first_of result (str ''labels'')
              = Inr (category (categorize_legal_issue classifier text)))"
    using categorize_cases [of classifier "text"]
    by (auto simp add: general_category_def)
  have e: "(\<forall>result label. classifier text (map fst legal_categories) = Inr result
          \<longrightarrow> first_of result (str ''labels'') = Inr label
          \<longrightarrow> label \<in> set (map (PStr \<circ> fst) legal_categories))
        \<longrightarrow> category (categorize_legal_issue classifier text) \<in> set enumerated_categories"
    using c candidates_enumerated general_enumerated by metis
  have p: "classifier text (map fst legal_categories) = Inr result
        \<longrightarrow> first_of result (str ''labels'') = Inr (PStr l)
        \<longrightarrow> first_of result (str ''scores'') = Inr score
        \<longrightarrow> category (categorize_legal_issue classifier text) = PStr l"
    by (simp add: categorize_legal_issue_def categorize_try_def and_then_def Let_def)
  show ?thesis
    by (intro conjI p1 p2 p3 p4 p5 p6 c e p)
qed

theorem category_is_top_label_or_general_witness:
  "categorize_legal_issue
       (classifier_giving (Inr (PDict [(str ''labels'', PList [PStr (str ''tax'')]),
                                        (str ''scores'', PList [PFloat 0.9])])))
       (str ''my case'')
     = \<lparr>category = PStr (str ''tax''), confidence = PFloat 0.9, subcategories = []\<rparr>
   \<and> str ''tax'' \<notin> set (map fst legal_categories)
   \<and> category (categorize_legal_issue
       (classifier_giving (Inr (PDict [(str ''labels'', PList [PStr (str ''property'')]),
                                        (str ''scores'', PList [PFloat 0.9])])))
       (str ''my case'')) \<in> set enumerated_categories
   \<and> categorize_legal_issue
       (classifier_giving (Inr (PDict [(str ''labels'', PList [PList []]),
                                        (str ''scores'', PList [PFloat 0.9])])))
       (str ''my case'') = general_category"
proof -
  let ?tax = "[(str ''labels'', PList [PStr (str ''tax'')]), (str ''scores'', PList [PFloat 0.9])]"
  let ?known = "[(str ''labels'', PList [PStr (str ''property'')]),
                (str ''scores'', PList [PFloat 0.9])]"
  let ?bad = "[(str ''labels'', PList [PList []]), (str ''scores'', PList [PFloat 0.9])]"
  have t: "str ''tax'' \<notin> set (map fst legal_categories)"
    by (simp add: legal_categories_def str_def)
  have m: "map_of ?tax (str ''labels'') = Some (PList (PStr (str ''tax'') # []))"
      "map_of ?tax (str ''scores'') = Some (PList (PFloat 0.9 # []))"
    by (simp_all add: str_def)
  have g: "classifier_giving (Inr r) (str ''my case'') (map fst legal_categories) = Inr r" for r
    by (simp add: classifier_giving_def)
  have c1: "categorize_legal_issue (classifier_giving (Inr (PDict ?tax))) (str ''my case'')
      = \<lparr>category = PStr (str ''tax''), confidence = PFloat 0.9, subcategories = []\<rparr>"
    using category_is_top_label_or_general [of "classifier_giving (Inr (PDict ?tax))"
        "str ''my case''" _ _ "PFloat 0.9" ?tax "str ''tax''" "[]" "[]"] g [of "PDict ?tax"] m t
    by blast
  have fp: "first_of (PDict ?known) (str ''labels'') = Inr (PStr (str ''property''))"
      "first_of (PDict ?known) (str ''scores'') = Inr (PFloat 0.9)"
    by (simp_all add: first_of_def and_then_def item_position_def str_def)
  have "category (categorize_legal_issue (classifier_giving (Inr (PDict ?known)))
      (str ''my case'')) = PStr (str ''property'')"
    using category_is_top_label_or_general [of "classifier_giving (Inr (PDict ?known))"
        "str ''my case''" "PDict ?known" "PStr (str ''property'')" "PFloat 0.9"]
      g [of "PDict ?known"] fp
    by simp
  moreover have "PStr (str ''property'') \<in> set enumerated_categories"
    by (simp add: enumerated_categories_def)
  ultimately have c3: "category (categorize_legal_issue (classifier_giving (Inr (PDict ?known)))
      (str ''my case'')) \<in> set enumerated_categories"
    by simp
  have fb: "first_of (PDict ?bad) (str ''labels'') = Inr (PList [])"
      "first_of (PDict ?bad) (str ''scores'') = Inr (PFloat 0.9)"
    by (simp_all add: first_of_def and_then_def item_position_def str_def)
  have c4: "categorize_legal_issue (classifier_giving (Inr (PDict ?bad))) (str ''my case'')
      = general_category"
    using category_is_top_label_or_general [of "classifier_giving (Inr (PDict ?bad))"
        "str ''my case''" "PDict ?bad" "PList []" "PFloat 0.9"] g [of "PDict ?bad"] fb
    by simp
  show ?thesis
    by (rule conjI [OF c1 conjI [OF t conjI [OF c3 c4]]])
qed

section \<open>Legal keywords\<close>

lemma fold_append_hits:
  "fold (\<lambda>w found. if P w then found @ [w] else found) ws acc = acc @ filter P ws"
  by (induction ws arbitrary: acc) simp_all

lemma find_legal_keywords_filter:
  "find_legal_keywords t = filter (\<lambda>w. sublist (lower w) t) (concat (map snd keyword_table))"
  by (simp add: find_legal_keywords_def keyword_table_def fold_append_hits is_in_iff_sublist)

lemma count_list_filter_le: "count_list (filter P xs) w \<le> count_list xs w"
  by (induction xs) simp_all

lemma length_keyword_table: "length (concat (map snd keyword_table)) = 20"
  by (simp add: keyword_table_def)

lemma count_list_distinct:
  "distinct xs \<Longrightarrow> count_list xs w = (if w \<in> set xs then 1 else 0)"
  by (induction xs) auto

lemma keyword_table_split:
  "concat (map snd keyword_table) =
     (snd (keyword_table ! 0) @ snd (keyword_table ! 1)) @ snd (keyword_table ! 2)"
  by (simp add: keyword_table_def)

lemma distinct_english_hindi:
  "distinct (snd (keyword_table ! 0) @ snd (keyword_table ! 1))"
  by (simp add: keyword_table_def str_def nyayalaya_def vakil_def)

lemma distinct_marathi: "distinct (snd (keyword_table ! 2))"
  by (simp add: keyword_table_def str_def nyayalaya_def vakil_def)

lemma shared_keywords:
  "set (snd (keyword_table ! 0) @ snd (keyword_table ! 1)) \<inter> set (snd (keyword_table ! 2))
     = {nyayalaya, vakil}"
  by (simp add: keyword_table_def str_def nyayalaya_def vakil_def)

lemma count_keyword_table:
  "count_list (concat (map snd keyword_table)) w \<le> (if w = nyayalaya \<or> w = vakil then 2 else 1)"
proof -
  let ?A = "snd (keyword_table ! 0) @ snd (keyword_table ! 1)"
  let ?B = "snd (keyword_table ! 2)"
  have c: "count_list (concat (map snd keyword_table)) w =
      (if w \<in> set ?A then 1 else 0) + (if w \<in> set ?B then 1 else 0)"
  proof -
    have "count_list (?A @ ?B) w = count_list ?A w + count_list ?B w"
      by (rule count_list_append)
    then show ?thesis
      by (simp only: keyword_table_split
          count_list_distinct [OF distinct_english_hindi] count_list_distinct [OF distinct_marathi])
  qed
  have "w \<in> set ?A \<Longrightarrow> w \<in> set ?B \<Longrightarrow> w = nyayalaya \<or> w = vakil"
    using shared_keywords by blast
  then show ?thesis
    unfolding c by (cases "w \<in> set ?A"; cases "w \<in> set ?B"; simp)
qed

lemma legal_keywords_extract:
  "legal_keywords (extract_key_info uc text) = find_legal_keywords (lower text)"
  by (simp add: extract_key_info_def)

text \<open>
  C10. For every text, the legal keywords found are the entries of the three word lists
  (8 English, 6 Hindi, 6 Marathi, in this order) whose lower-cased form occurs in the
  lower-cased text, each entry once however often it occurs: a subsequence of the 20
  entries, so never more than 20 elements. A word appears at most once, except the two
  words listed in both the Hindi and the Marathi list, which appear at most twice: one
  occurrence of such a word in the text yields two entries.
\<close>

theorem legal_keywords_once_per_entry:
  "legal_keywords (extract_key_info uc text) =
      filter (\<lambda>w. sublist (lower w) (lower text)) (concat (map snd keyword_table))
   \<and> subseq (legal_keywords (extract_key_info uc text)) (concat (map snd keyword_table))
   \<and> length (concat (map snd keyword_table)) = 20
   \<and> length (legal_keywords (extract_key_info uc text)) \<le> 20
   \<and> count_list (legal_keywords (extract_key_info uc text)) w
        \<le> (if w = nyayalaya \<or> w = vakil then 2 else 1)
   \<and> legal_keywords (extract_key_info uc (vakil @ str '' '' @ vakil)) = [vakil, vakil]
   \<and> legal_keywords (extract_key_info uc (str ''law, LAW and law'')) = [str ''law'']"
proof -
  let ?all = "concat (map snd keyword_table)"
  let ?res = "legal_keywords (extract_key_info uc text)"
  have eq: "?res = filter (\<lambda>w. sublist (lower w) (lower text)) ?all"
    by (simp add: legal_keywords_extract find_legal_keywords_filter)
  have sub: "subseq ?res ?all"
    by (simp add: eq)
  have len: "length ?res \<le> 20"
    using length_filter_le [of "\<lambda>w. sublist (lower w) (lower text)" ?all]
    by (simp add: eq length_keyword_table)
  have "count_list ?res w \<le> count_list ?all w"
    by (simp add: eq count_list_filter_le)
  then have cnt: "count_list ?res w \<le> (if w = nyayalaya \<or> w = vakil then 2 else 1)"
    using count_keyword_table [of w] by linarith
  have v: "legal_keywords (extract_key_info uc (vakil @ str '' '' @ vakil)) = [vakil, vakil]"
    by (simp add: legal_keywords_extract find_legal_keywords_def keyword_table_def str_def
        nyayalaya_def vakil_def lower_def lower_char_def)
  have l: "legal_keywords (extract_key_info uc (str ''law, LAW and law'')) = [str ''law'']"
    by (simp add: legal_keywords_extract find_legal_keywords_def keyword_table_def str_def
        nyayalaya_def vakil_def lower_def lower_char_def)
  from eq sub len cnt v l length_keyword_table show ?thesis
    by blast
qed

section \<open>Dates\<close>

lemma scan_sound:
  "d \<in> set (scan m k prev s) \<Longrightarrow>
     \<exists>before after n. s = before @ d @ after
       \<and> m (if before = [] then prev else Some (last before)) (d @ after) = Some n
       \<and> d = take n (d @ after)"
proof (induction m k prev s rule: scan.induct)
  case (1 m skip prev)
  then have "d = []" and "\<exists>n. m prev [] = Some n"
    by (cases "m prev []"; auto split: if_splits)+
  then show ?case by auto
next
  case (2 m k prev c cs)
  then obtain before after n where h: "cs = before @ d @ after"
      "m (if before = [] then Some c else Some (last before)) (d @ after) = Some n"
      "d = take n (d @ after)"
    by auto
  have "c # cs = (c # before) @ d @ after"
    using h(1) by simp
  moreover have "m (if c # before = [] then prev else Some (last (c # before))) (d @ after) = Some n"
    using h(2) by (cases "before = []") simp_all
  ultimately show ?case using h(3) by blast
next
  case (3 m prev c cs)
  show ?case
  proof (cases "m prev (c # cs)")
    case None
    with 3 obtain before after n where h: "cs = before @ d @ after"
        "m (if before = [] then Some c else Some (last before)) (d @ after) = Some n"
        "d = take n (d @ after)"
      by auto
    have "c # cs = (c # before) @ d @ after"
      using h(1) by simp
    moreover have "m (if c # before = [] then prev else Some (last (c # before))) (d @ after) = Some n"
      using h(2) by (cases "before = []") simp_all
    ultimately show ?thesis using h(3) by blast
  next
    case (Some n)
    with 3(3) have "d = take n (c # cs) \<or> d \<in> set (scan m (n - 1) (Some c) cs)"
      by simp
    then show ?thesis
    proof
      assume d: "d = take n (c # cs)"
      have "c # cs = [] @ d @ drop n (c # cs)"
        by (simp add: d)
      moreover have "m (if ([]::pystr) = [] then prev else Some (last [])) (d @ drop n (c # cs)) = Some n"
        using Some by (simp add: d)
      moreover have "d = take n (d @ drop n (c # cs))"
        by (simp add: d)
      ultimately show ?thesis by blast
    next
      assume "d \<in> set (scan m (n - 1) (Some c) cs)"
      with 3(2) [OF Some] obtain before after n' where h: "cs = before @ d @ after"
          "m (if before = [] then Some c else Some (last before)) (d @ after) = Some n'"
          "d = take n' (d @ after)"
        by auto
      have "c # cs = (c # before) @ d @ after"
        using h(1) by simp
      moreover have "m (if c # before = [] then prev else Some (last (c # before))) (d @ after) = Some n'"
        using h(2) by (cases "before = []") simp_all
      ultimately show ?thesis using h(3) by blast
    qed
  qed
qed

lemma first_candidate:
  "(case xs of [] \<Rightarrow> None | n # _ \<Rightarrow> Some n) = Some k \<Longrightarrow> k \<in> set xs"
  by (cases xs) simp_all

lemma date_pattern_cands:
  assumes "date_pattern uc prev s = Some n"
  shows "at_boundary uc prev s \<and> (\<exists>a b c. a \<in> set (digit_counts uc 1 2 s) \<and> sep_at (drop a s)
    \<and> b \<in> set (digit_counts uc 1 2 (drop (a + 1) s)) \<and> sep_at (drop (a + 1 + b) s)
    \<and> c \<in> set (digit_counts uc 2 4 (drop (a + 1 + b + 1) s))
    \<and> at_boundary uc (Some (s ! (a + 1 + b + 1 + c - 1))) (drop (a + 1 + b + 1 + c) s)
    \<and> n = a + 1 + b + 1 + c)"
proof -
  have bd: "at_boundary uc prev s"
    using assms by (cases "at_boundary uc prev s") (simp_all add: date_pattern_def)
  then have "n \<in> set [a + 1 + b + 1 + c.
                 a \<leftarrow> digit_counts uc 1 2 s,
                 sep_at (drop a s),
                 b \<leftarrow> digit_counts uc 1 2 (drop (a + 1) s),
                 sep_at (drop (a + 1 + b) s),
                 c \<leftarrow> digit_counts uc 2 4 (drop (a + 1 + b + 1) s),
                 at_boundary uc (Some (s ! (a + 1 + b + 1 + c - 1))) (drop (a + 1 + b + 1 + c) s)]"
    using assms by (intro first_candidate) (simp add: date_pattern_def)
  then show ?thesis
    using bd by (simp split: if_splits) blast
qed

lemma digit_counts_mem:
  "k \<in> set (digit_counts uc m n s) \<Longrightarrow> m \<le> k \<and> k \<le> n \<and> k \<le> length (takeWhile (is_digit uc) s)"
  by (auto simp add: digit_counts_def)

lemma leading_digits:
  assumes "k \<le> length (takeWhile (is_digit uc) s)"
  shows "\<exists>A r. s = A @ r \<and> length A = k \<and> list_all (is_digit uc) A"
proof -
  have "take k s = take k (takeWhile (is_digit uc) s @ dropWhile (is_digit uc) s)"
    by simp
  also have "\<dots> = take k (takeWhile (is_digit uc) s)"
    using assms by (simp del: takeWhile_dropWhile_id)
  finally have t: "take k s = take k (takeWhile (is_digit uc) s)" .
  have "set (take k (takeWhile (is_digit uc) s)) \<subseteq> set (takeWhile (is_digit uc) s)"
    by (rule set_take_subset)
  then have "list_all (is_digit uc) (take k s)"
    unfolding t list_all_iff by (auto dest: set_takeWhileD)
  moreover have "length (take k s) = k"
    using assms unfolding t by simp
  moreover have "s = take k s @ drop k s"
    by simp
  ultimately show ?thesis by blast
qed

lemma sep_at_Cons: "sep_at r \<Longrightarrow> \<exists>c r'. r = c # r' \<and> is_sep c"
  by (cases r) (simp_all add: sep_at_def)

lemma date_pattern_match:
  assumes "date_pattern uc prev s = Some n"
  shows "\<exists>A s1 B s2 C rest.
      s = A @ s1 # B @ s2 # C @ rest \<and> take n s = A @ s1 # B @ s2 # C
    \<and> list_all (is_digit uc) A \<and> length A \<in> {1, 2} \<and> is_sep s1
    \<and> list_all (is_digit uc) B \<and> length B \<in> {1, 2} \<and> is_sep s2
    \<and> list_all (is_digit uc) C \<and> length C \<in> {2, 3, 4}
    \<and> at_boundary uc prev s \<and> at_boundary uc (Some (last C)) rest"
proof -
  from date_pattern_cands [OF assms] obtain a b c where
      bd: "at_boundary uc prev s"
    and a: "a \<in> set (digit_counts uc 1 2 s)" and sa: "sep_at (drop a s)"
    and b: "b \<in> set (digit_counts uc 1 2 (drop (a + 1) s))" and sb: "sep_at (drop (a + 1 + b) s)"
    and c: "c \<in> set (digit_counts uc 2 4 (drop (a + 1 + b + 1) s))"
    and e: "at_boundary uc (Some (s ! (a + 1 + b + 1 + c - 1))) (drop (a + 1 + b + 1 + c) s)"
    and n: "n = a + 1 + b + 1 + c"
    by blast
  from digit_counts_mem [OF a] have a': "1 \<le> a" "a \<le> 2" "a \<le> length (takeWhile (is_digit uc) s)"
    by simp_all
  from leading_digits [OF a'(3)] obtain A r1
    where A: "s = A @ r1" "length A = a" "list_all (is_digit uc) A"
    by blast
  have d0: "drop a s = r1"
    using A by simp
  from sep_at_Cons [OF sa [unfolded d0]] obtain s1 r2 where s1: "r1 = s1 # r2" "is_sep s1"
    by blast
  have d1: "drop (a + 1) s = r2"
    using A s1 by simp
  from digit_counts_mem [OF b [unfolded d1]]
  have b': "1 \<le> b" "b \<le> 2" "b \<le> length (takeWhile (is_digit uc) r2)"
    by simp_all
  from leading_digits [OF b'(3)] obtain B r3
    where B: "r2 = B @ r3" "length B = b" "list_all (is_digit uc) B"
    by blast
  have d2: "drop (a + 1 + b) s = r3"
    using A s1 B by simp
  from sep_at_Cons [OF sb [unfolded d2]] obtain s2 r4 where s2: "r3 = s2 # r4" "is_sep s2"
    by blast
  have d3: "drop (a + 1 + b + 1) s = r4"
    using A s1 B s2 by simp
  from digit_counts_mem [OF c [unfolded d3]]
  have c': "2 \<le> c" "c \<le> 4" "c \<le> length (takeWhile (is_digit uc) r4)"
    by simp_all
  from leading_digits [OF c'(3)] obtain C r5
    where C: "r4 = C @ r5" "length C = c" "list_all (is_digit uc) C"
    by blast
  have s: "s = A @ s1 # B @ s2 # C @ r5"
    using A s1 B s2 C by simp
  have t: "take n s = A @ s1 # B @ s2 # C"
    unfolding s n using A(2) B(2) C(2) by simp
  have d4: "drop (a + 1 + b + 1 + c) s = r5"
    unfolding s using A(2) B(2) C(2) by simp
  have "C \<noteq> []"
    using C(2) c'(1) by auto
  define P where "P = A @ s1 # B @ s2 # C"
  have lp: "length P = a + 1 + b + 1 + c"
    using A(2) B(2) C(2) by (simp add: P_def)
  have sp: "s = P @ r5"
    using s by (simp add: P_def)
  have "P \<noteq> []"
    by (simp add: P_def)
  then have "s ! (length P - 1) = P ! (length P - 1)"
    unfolding sp by (simp add: nth_append)
  also have "\<dots> = last P"
    using \<open>P \<noteq> []\<close> by (simp add: last_conv_nth)
  also have "\<dots> = last C"
    using \<open>C \<noteq> []\<close> by (simp add: P_def)
  finally have l: "s ! (a + 1 + b + 1 + c - 1) = last C"
    unfolding lp .
  have "length A \<in> {1, 2}" "length B \<in> {1, 2}" "length C \<in> {2, 3, 4}"
    using A(2) a'(1,2) B(2) b'(1,2) C(2) c'(1,2) by auto
  moreover note s t A(3) B(3) C(3) s1(2) s2(2) bd e [unfolded d4 l]
  ultimately have "s = A @ s1 # B @ s2 # C @ r5 \<and> take n s = A @ s1 # B @ s2 # C
    \<and> list_all (is_digit uc) A \<and> length A \<in> {1, 2} \<and> is_sep s1
    \<and> list_all (is_digit uc) B \<and> length B \<in> {1, 2} \<and> is_sep s2
    \<and> list_all (is_digit uc) C \<and> length C \<in> {2, 3, 4}
    \<and> at_boundary uc prev s \<and> at_boundary uc (Some (last C)) r5"
    by simp
  then show ?thesis
    by (intro exI)
qed

lemma sep_not_digit: "is_sep c \<Longrightarrow> \<not> is_digit uc c"
  by (auto simp add: is_sep_def is_digit_def)

lemma digit_is_word_char: "is_digit uc c \<Longrightarrow> is_word_char uc c"
  by (simp add: is_word_char_def)

lemma digits_then_sep:
  assumes "list_all (is_digit uc) A" "is_sep c"
  shows "takeWhile (is_digit uc) (A @ c # r) = A" "dropWhile (is_digit uc) (A @ c # r) = c # r"
  using assms by (simp_all add: list_all_iff sep_not_digit)

lemma date_shape:
  assumes "list_all (is_digit uc) A" "is_sep s1" "list_all (is_digit uc) B" "is_sep s2"
    "list_all (is_digit uc) C" "length A \<in> {1, 2}" "length B \<in> {1, 2}" "length C \<in> set ls"
  shows "date_form uc ls (A @ s1 # B @ s2 # C)"
  using assms(2,4-8)
  by (simp add: date_form_def Let_def digits_then_sep [OF assms(1,2)]
      digits_then_sep [OF assms(3,4)])

lemma date_form_iff:
  "date_form uc ls d \<longleftrightarrow>
     (\<exists>A s1 B s2 C. d = A @ s1 # B @ s2 # C
        \<and> list_all (is_digit uc) A \<and> is_sep s1 \<and> list_all (is_digit uc) B \<and> is_sep s2
        \<and> list_all (is_digit uc) C
        \<and> length A \<in> {1, 2} \<and> length B \<in> {1, 2} \<and> length C \<in> set ls)"
proof
  assume f: "date_form uc ls d"
  let ?A = "takeWhile (is_digit uc) d"
  from f obtain s1 r2 where r1: "dropWhile (is_digit uc) d = s1 # r2"
    by (cases "dropWhile (is_digit uc) d") (simp_all add: date_form_def Let_def)
  let ?B = "takeWhile (is_digit uc) r2"
  from f r1 obtain s2 C where r3: "dropWhile (is_digit uc) r2 = s2 # C"
    by (cases "dropWhile (is_digit uc) r2") (simp_all add: date_form_def Let_def)
  from f r1 r3 have p: "is_sep s1" "is_sep s2" "list_all (is_digit uc) C"
      "length ?A \<in> {1, 2}" "length ?B \<in> {1, 2}" "length C \<in> set ls"
    by (simp_all add: date_form_def Let_def)
  have "d = ?A @ dropWhile (is_digit uc) d"
    by simp
  also have "\<dots> = ?A @ s1 # (?B @ dropWhile (is_digit uc) r2)"
    unfolding r1 by simp
  finally have d: "d = ?A @ s1 # ?B @ s2 # C"
    unfolding r3 .
  have "list_all (is_digit uc) ?A" "list_all (is_digit uc) ?B"
    by (auto simp add: list_all_iff dest: set_takeWhileD)
  with d p show "\<exists>A s1 B s2 C. d = A @ s1 # B @ s2 # C
        \<and> list_all (is_digit uc) A \<and> is_sep s1 \<and> list_all (is_digit uc) B \<and> is_sep s2
        \<and> list_all (is_digit uc) C
        \<and> length A \<in> {1, 2} \<and> length B \<in> {1, 2} \<and> length C \<in> set ls"
    by blast
next
  assume "\<exists>A s1 B s2 C. d = A @ s1 # B @ s2 # C
        \<and> list_all (is_digit uc) A \<and> is_sep s1 \<and> list_all (is_digit uc) B \<and> is_sep s2
        \<and> list_all (is_digit uc) C
        \<and> length A \<in> {1, 2} \<and> length B \<in> {1, 2} \<and> length C \<in> set ls"
  then show "date_form uc ls d"
    using date_shape by blast
qed

lemma match_is_token:
  assumes "date_pattern uc (if before = [] then None else Some (last before)) s = Some n"
  shows "date_form uc [2, 3, 4] (take n s) \<and> word_bounded uc before (drop n s)"
proof -
  from date_pattern_match [OF assms] obtain A s1 B s2 C rest where
      s: "s = A @ s1 # B @ s2 # C @ rest"
    and tk: "take n s = A @ s1 # B @ s2 # C"
    and A: "list_all (is_digit uc) A" "length A \<in> {1, 2}" and s1: "is_sep s1"
    and B: "list_all (is_digit uc) B" "length B \<in> {1, 2}" and s2: "is_sep s2"
    and C: "list_all (is_digit uc) C" "length C \<in> {2, 3, 4}"
    and b1: "at_boundary uc (if before = [] then None else Some (last before)) s"
    and b2: "at_boundary uc (Some (last C)) rest"
    by blast
  have form: "date_form uc [2, 3, 4] (take n s)"
    unfolding tk using A(1) s1 B(1) s2 C(1) A(2) B(2) C(2) by (intro date_shape) simp_all
  have "take n s @ drop n s = s"
    by (rule append_take_drop_id)
  then have "(A @ s1 # B @ s2 # C) @ drop n s = s"
    by (simp only: tk)
  also have "s = (A @ s1 # B @ s2 # C) @ rest"
    using s by simp
  finally have dr: "drop n s = rest"
    by (simp only: same_append_eq)
  obtain a0 A' where A': "A = a0 # A'"
    using A(2) by (cases A) auto
  have "is_word_char uc a0"
    using A(1) A' by (simp add: digit_is_word_char)
  then have w1: "before = [] \<or> \<not> is_word_char uc (last before)"
    using b1 unfolding s A' by (cases "before = []") (simp_all add: at_boundary_def)
  have "C \<noteq> []"
    using C(2) by auto
  then have "last C \<in> set C"
    by simp
  then have "is_word_char uc (last C)"
    using C(1) by (simp add: list_all_iff digit_is_word_char)
  then have w2: "rest = [] \<or> \<not> is_word_char uc (hd rest)"
    using b2 by (cases rest) (simp_all add: at_boundary_def)
  from form w1 w2 show ?thesis
    unfolding word_bounded_def dr by blast
qed

lemma findall_date_sound:
  assumes "d \<in> set (findall (date_pattern uc) text)"
  shows "date_form uc [2, 3, 4] d
    \<and> (\<exists>before after. text = before @ d @ after \<and> word_bounded uc before after)"
proof -
  from scan_sound [OF assms [unfolded findall_def]] obtain before after n where
      t: "text = before @ d @ after"
    and m: "date_pattern uc (if before = [] then None else Some (last before)) (d @ after)
        = Some n"
    and d: "d = take n (d @ after)"
    by blast
  from match_is_token [OF m] have form: "date_form uc [2, 3, 4] d"
    and w: "word_bounded uc before (drop n (d @ after))"
    using d by simp_all
  have "take n (d @ after) @ drop n (d @ after) = d @ after"
    by (rule append_take_drop_id)
  then have "d @ drop n (d @ after) = d @ after"
    by (simp only: d [symmetric])
  then have "drop n (d @ after) = after"
    by (simp only: same_append_eq)
  with form t w show ?thesis
    by auto
qed

lemma digit_counts_first:
  assumes "length (takeWhile (is_digit uc) s) = k" "m \<le> k" "k \<le> n"
  shows "digit_counts uc m n s = k # rev [m..<k]"
proof -
  have "[m..<k + (Suc n - k)] = [m..<k] @ [k..<k + (Suc n - k)]"
    using assms(2) by (rule upt_add_eq_append)
  then have "[m..<Suc n] = [m..<k] @ [k..<Suc n]"
    using assms(3) by simp
  also have "[k..<Suc n] = k # [Suc k..<Suc n]"
    using assms(3) by (simp add: upt_conv_Cons)
  finally have "rev [m..<Suc n] = rev [Suc k..<Suc n] @ k # rev [m..<k]"
    by simp
  moreover have "filter (\<lambda>j. j \<le> k) (rev [Suc k..<Suc n]) = []"
    by (auto simp add: filter_empty_conv)
  moreover have "filter (\<lambda>j. j \<le> k) (rev [m..<k]) = rev [m..<k]"
    by (auto simp add: filter_id_conv)
  ultimately show ?thesis
    using assms(1) by (simp add: digit_counts_def)
qed

lemma digits_then_boundary:
  assumes "list_all (is_digit uc) C" "after = [] \<or> \<not> is_word_char uc (hd after)"
  shows "takeWhile (is_digit uc) (C @ after) = C"
proof (cases after)
  case Nil
  then show ?thesis using assms(1) by (simp add: list_all_iff)
next
  case (Cons x xs)
  with assms(2) have "\<not> is_digit uc x"
    using digit_is_word_char by auto
  then show ?thesis
    using assms(1) Cons by (simp add: list_all_iff)
qed

lemma first_match:
  assumes "xs = a # xs'" "P a" "ys a = b # ys'" "Q a b" "zs a b = c # zs'" "R a b c"
  shows "(case [e a b c. a \<leftarrow> xs, P a, b \<leftarrow> ys a, Q a b, c \<leftarrow> zs a b, R a b c]
          of [] \<Rightarrow> None | n # _ \<Rightarrow> Some n) = Some (e a b c)"
  using assms by simp

lemma date_pattern_token:
  assumes A: "list_all (is_digit uc) A" "length A \<in> {1, 2}" and s1: "is_sep s1"
    and B: "list_all (is_digit uc) B" "length B \<in> {1, 2}" and s2: "is_sep s2"
    and C: "list_all (is_digit uc) C" "length C \<in> {2, 3, 4}"
    and after: "after = [] \<or> \<not> is_word_char uc (hd after)"
    and bd: "at_boundary uc p (A @ s1 # B @ s2 # C @ after)"
  shows "date_pattern uc p (A @ s1 # B @ s2 # C @ after) = Some (length (A @ s1 # B @ s2 # C))"
proof -
  let ?s = "A @ s1 # B @ s2 # C @ after"
  let ?a = "length A" and ?b = "length B" and ?c = "length C"
  have dc1: "digit_counts uc 1 2 ?s = ?a # rev [1..<?a]"
    using A(2) by (intro digit_counts_first) (auto simp add: digits_then_sep [OF A(1) s1])
  have q1: "sep_at (drop ?a ?s)"
    by (simp add: sep_at_def s1)
  have "digit_counts uc 1 2 (B @ s2 # C @ after) = ?b # rev [1..<?b]"
    using B(2) by (intro digit_counts_first) (auto simp add: digits_then_sep [OF B(1) s2])
  moreover have "drop (?a + 1) ?s = B @ s2 # C @ after"
    by simp
  ultimately have dc2: "digit_counts uc 1 2 (drop (?a + 1) ?s) = ?b # rev [1..<?b]"
    by (simp only:)
  have q2: "sep_at (drop (?a + 1 + ?b) ?s)"
    by (simp add: sep_at_def s2)
  have "digit_counts uc 2 4 (C @ after) = ?c # rev [2..<?c]"
    using C(2) by (intro digit_counts_first) (auto simp add: digits_then_boundary [OF C(1) after])
  moreover have "drop (?a + 1 + ?b + 1) ?s = C @ after"
    by simp
  ultimately have dc3: "digit_counts uc 2 4 (drop (?a + 1 + ?b + 1) ?s) = ?c # rev [2..<?c]"
    by (simp only:)
  have "C \<noteq> []"
    using C(2) by auto
  then have "is_word_char uc (last C)"
    using C(1) by (simp add: list_all_iff digit_is_word_char)
  then have "at_boundary uc (Some (last C)) after"
    using after by (cases after) (simp_all add: at_boundary_def)
  moreover have "?s ! (?a + 1 + ?b + 1 + ?c - 1) = last C"
    using \<open>C \<noteq> []\<close> by (simp add: nth_append last_conv_nth)
  moreover have "drop (?a + 1 + ?b + 1 + ?c) ?s = after"
    by simp
  ultimately have q3: "at_boundary uc (Some (?s ! (?a + 1 + ?b + 1 + ?c - 1)))
      (drop (?a + 1 + ?b + 1 + ?c) ?s)"
    by (simp only:)
  have "date_pattern uc p ?s = Some (?a + 1 + ?b + 1 + ?c)"
    unfolding date_pattern_def if_P [OF bd]
    by (rule first_match, rule dc1, rule q1, rule dc2, rule q2, rule dc3, rule q3)
  then show ?thesis
    by simp
qed

lemma date_pattern_needs_digit:
  assumes "takeWhile (is_digit uc) s = []"
  shows "date_pattern uc p s = None"
proof -
  have "digit_counts uc 1 2 s = []"
    by (simp add: digit_counts_def assms)
  then show ?thesis
    by (simp add: date_pattern_def)
qed

lemma scan_skips_nondigits:
  "list_all (\<lambda>c. \<not> is_digit uc c) before \<Longrightarrow>
     scan (date_pattern uc) 0 prev (before @ s) =
       scan (date_pattern uc) 0 (if before = [] then prev else Some (last before)) s"
proof (induction before arbitrary: prev)
  case Nil
  then show ?case by simp
next
  case (Cons x xs)
  then have "date_pattern uc prev (x # xs @ s) = None"
    by (intro date_pattern_needs_digit) simp
  then have "scan (date_pattern uc) 0 prev ((x # xs) @ s) = scan (date_pattern uc) 0 (Some x) (xs @ s)"
    by simp
  also have "\<dots> = scan (date_pattern uc) 0 (if xs = [] then Some x else Some (last xs)) s"
    using Cons by simp
  finally show ?case
    by (cases "xs = []") simp_all
qed

lemma scan_past_end:
  "length s \<le> k \<Longrightarrow> scan (date_pattern uc) k prev s = []"
proof (induction s arbitrary: k prev)
  case Nil
  then show ?case
    by (simp add: date_pattern_needs_digit)
next
  case (Cons c cs)
  then obtain k' where "k = Suc k'" "length cs \<le> k'"
    by (cases k) auto
  with Cons.IH show ?case by simp
qed

lemma token_is_match:
  assumes f: "date_form uc [2, 3, 4] d" and w: "word_bounded uc before after"
  shows "date_pattern uc (if before = [] then None else Some (last before)) (d @ after)
    = Some (length d)"
proof -
  from f obtain A s1 B s2 C where d: "d = A @ s1 # B @ s2 # C"
    and A: "list_all (is_digit uc) A" "length A \<in> {1, 2}" and s1: "is_sep s1"
    and B: "list_all (is_digit uc) B" "length B \<in> {1, 2}" and s2: "is_sep s2"
    and C: "list_all (is_digit uc) C" "length C \<in> {2, 3, 4}"
    unfolding date_form_iff by auto
  let ?p = "if before = [] then None else Some (last before)"
  obtain a0 A' where A': "A = a0 # A'"
    using A(2) by (cases A) auto
  have "is_word_char uc a0"
    using A(1) A' by (simp add: digit_is_word_char)
  moreover have "before = [] \<or> \<not> is_word_char uc (last before)"
    using w by (simp add: word_bounded_def)
  ultimately have bd: "at_boundary uc ?p (A @ s1 # B @ s2 # C @ after)"
    unfolding A' by (cases "before = []") (simp_all add: at_boundary_def)
  have af: "after = [] \<or> \<not> is_word_char uc (hd after)"
    using w by (simp add: word_bounded_def)
  show ?thesis
    using date_pattern_token [OF A s1 B s2 C af bd] by (simp add: d)
qed

lemma date_form_nonempty: "date_form uc ls d \<Longrightarrow> d \<noteq> []"
  unfolding date_form_iff by auto

lemma scan_no_match:
  assumes "\<And>b1 b2. before = b1 @ b2 \<Longrightarrow> b2 \<noteq> [] \<Longrightarrow>
      m (if b1 = [] then prev else Some (last b1)) (b2 @ s) = None"
  shows "scan m 0 prev (before @ s) = scan m 0 (if before = [] then prev else Some (last before)) s"
  using assms
proof (induction before arbitrary: prev)
  case Nil
  then show ?case by simp
next
  case (Cons x xs)
  have "m prev ((x # xs) @ s) = None"
    using Cons.prems [of "[]" "x # xs"] by simp
  then have "scan m 0 prev ((x # xs) @ s) = scan m 0 (Some x) (xs @ s)"
    by simp
  also have "\<dots> = scan m 0 (if xs = [] then Some x else Some (last xs)) s"
  proof (rule Cons.IH)
    fix b1 b2
    assume b: "xs = b1 @ b2" "b2 \<noteq> []"
    then have "x # xs = (x # b1) @ b2"
      by simp
    from Cons.prems [OF this b(2)]
    show "m (if b1 = [] then Some x else Some (last b1)) (b2 @ s) = None"
      by (cases "b1 = []") simp_all
  qed
  finally show ?case
    by (cases "xs = []") simp_all
qed

lemma scan_skip_match:
  "length s1 = k \<Longrightarrow>
     scan m k prev (s1 @ s2) = scan m 0 (if s1 = [] then prev else Some (last s1)) s2"
proof (induction s1 arbitrary: k prev)
  case Nil
  then show ?case by simp
next
  case (Cons c cs)
  then obtain k' where k: "k = Suc k'" "length cs = k'"
    by (cases k) auto
  have "scan m k prev ((c # cs) @ s2) = scan m k' (Some c) (cs @ s2)"
    by (simp add: k)
  also have "\<dots> = scan m 0 (if cs = [] then Some c else Some (last cs)) s2"
    using k(2) by (rule Cons.IH)
  finally show ?case
    by (cases "cs = []") simp_all
qed

lemma scan_restart:
  assumes "after = [] \<or> \<not> is_word_char uc (hd after)"
  shows "scan (date_pattern uc) 0 p after = scan (date_pattern uc) 0 None after"
proof (cases after)
  case Nil
  then show ?thesis
    by (simp add: date_pattern_needs_digit)
next
  case (Cons c cs)
  with assms have "\<not> is_digit uc c"
    using digit_is_word_char by auto
  then have "takeWhile (is_digit uc) (c # cs) = []"
    by simp
  then have "date_pattern uc q (c # cs) = None" for q
    by (rule date_pattern_needs_digit)
  then show ?thesis
    unfolding Cons by simp
qed

lemma findall_leftmost:
  assumes t: "text = before @ d @ after" and f: "date_form uc [2, 3, 4] d"
    and w: "word_bounded uc before after"
    and e: "\<And>b d' a'. text = b @ d' @ a' \<Longrightarrow> length b < length before \<Longrightarrow>
        date_form uc [2, 3, 4] d' \<Longrightarrow> \<not> word_bounded uc b a'"
  shows "findall (date_pattern uc) text = d # findall (date_pattern uc) after"
proof -
  let ?m = "date_pattern uc"
  let ?p = "if before = [] then None else Some (last before)"
  have none: "?m (if b1 = [] then None else Some (last b1)) (b2 @ d @ after) = None"
    if b: "before = b1 @ b2" "b2 \<noteq> []" for b1 b2
  proof (rule ccontr)
    assume "?m (if b1 = [] then None else Some (last b1)) (b2 @ d @ after) \<noteq> None"
    then obtain n where n: "?m (if b1 = [] then None else Some (last b1)) (b2 @ d @ after) = Some n"
      by auto
    from match_is_token [OF n]
    have "date_form uc [2, 3, 4] (take n (b2 @ d @ after))"
      and "word_bounded uc b1 (drop n (b2 @ d @ after))"
      by simp_all
    moreover have "text = b1 @ take n (b2 @ d @ after) @ drop n (b2 @ d @ after)"
      unfolding append_take_drop_id using t b(1) by simp
    moreover have "length b1 < length before"
      using b by simp
    ultimately show False
      using e by blast
  qed
  obtain x d' where d: "d = x # d'"
    using date_form_nonempty [OF f] by (cases d) auto
  have "findall ?m text = scan ?m 0 None (before @ d @ after)"
    by (simp add: findall_def t)
  also have "\<dots> = scan ?m 0 ?p (d @ after)"
    using none by (rule scan_no_match)
  also have "\<dots> = take (length d) (d @ after) # scan ?m (length d - 1) (Some x) (d' @ after)"
    using token_is_match [OF f w] by (simp add: d)
  also have "take (length d) (d @ after) = d"
    by simp
  also have "scan ?m (length d - 1) (Some x) (d' @ after)
      = scan ?m 0 (if d' = [] then Some x else Some (last d')) after"
    by (rule scan_skip_match) (simp add: d)
  also have "\<dots> = scan ?m 0 None after"
    using w by (intro scan_restart) (simp add: word_bounded_def)
  finally show ?thesis
    by (simp add: findall_def)
qed

lemma findall_no_token:
  assumes "\<And>b d a. text = b @ d @ a \<Longrightarrow> date_form uc [2, 3, 4] d \<Longrightarrow> \<not> word_bounded uc b a"
  shows "findall (date_pattern uc) text = []"
proof (rule ccontr)
  assume "findall (date_pattern uc) text \<noteq> []"
  then obtain d where "d \<in> set (findall (date_pattern uc) text)"
    by (cases "findall (date_pattern uc) text") auto
  from findall_date_sound [OF this] assms show False
    by blast
qed

lemma findall_empty: "findall (date_pattern uc) [] = []"
  by (simp add: findall_def date_pattern_needs_digit)

lemma findall_whole_date:
  assumes "date_form uc [2, 3, 4] text"
  shows "findall (date_pattern uc) text = [text]"
proof -
  have "findall (date_pattern uc) text = text # findall (date_pattern uc) []"
  proof (rule findall_leftmost)
    show "text = [] @ text @ []"
      by simp
    show "word_bounded uc [] []"
      by (simp add: word_bounded_def)
  qed (use assms in simp_all)
  then show ?thesis
    by (simp add: findall_empty)
qed

lemma dates_extract: "dates (extract_key_info uc text) = findall (date_pattern uc) text"
  by (simp add: extract_key_info_def)

lemma no_token_where_no_match:
  assumes none: "\<And>k. k < n \<Longrightarrow>
      date_pattern uc (if take k s = [] then None else Some (last (take k s)))
        (drop k s) = None"
    and t: "s = b @ d' @ a'" and l: "length b < n" and f: "date_form uc [2, 3, 4] d'"
  shows "\<not> word_bounded uc b a'"
proof
  assume "word_bounded uc b a'"
  from token_is_match [OF f this]
  have "date_pattern uc (if b = [] then None else Some (last b)) (d' @ a') = Some (length d')" .
  moreover have "take (length b) s = b" "drop (length b) s = d' @ a'"
    by (simp_all add: t)
  ultimately show False
    using none [OF l] by (cases "b = []") simp_all
qed

text \<open>Evaluation of the date pattern on a given text.\<close>

lemma digit_counts_1_2:
  "digit_counts uc 1 2 s = [k \<leftarrow> [2, 1]. k \<le> length (takeWhile (is_digit uc) s)]"
proof -
  have "rev [1..<Suc 2] = [2, 1::nat]"
    by code_simp
  then show ?thesis
    by (simp only: digit_counts_def)
qed

lemma digit_counts_Suc0_2:
  "digit_counts uc (Suc 0) 2 s =
     [k \<leftarrow> [2, Suc 0]. k \<le> length (takeWhile (is_digit uc) s)]"
  using digit_counts_1_2 [of uc s] by simp

lemma digit_counts_2_4:
  "digit_counts uc 2 4 s = [k \<leftarrow> [4, 3, 2]. k \<le> length (takeWhile (is_digit uc) s)]"
proof -
  have "rev [2..<Suc 4] = [4, 3, 2::nat]"
    by code_simp
  then show ?thesis
    by (simp only: digit_counts_def)
qed

lemma scan_skip_one: "0 < k \<Longrightarrow> scan m k prev (c # cs) = scan m (k - 1) (Some c) cs"
  by (cases k) simp_all

lemmas date_evals = dates_extract findall_def date_pattern_def digit_counts_1_2
  digit_counts_Suc0_2 digit_counts_2_4 scan_skip_one at_boundary_def sep_at_def
  is_digit_def is_word_char_def is_sep_def str_def

lemma three_digit_year_extracted:
  "dates (extract_key_info uc (str ''12/05/202'')) = [str ''12/05/202'']"
  by (simp add: date_evals)

lemma three_digit_year_form: "\<not> date_form uc [2, 4] (str ''12/05/202'')"
  by (simp add: date_form_def is_digit_def is_sep_def str_def)

lemma overlapped_token_missed:
  "dates (extract_key_info uc (str ''1/2/33/4/55'')) = [str ''1/2/33'']"
  by (simp add: date_evals)

lemma overlapped_token_form:
  "date_form uc [2, 4] (str ''33/4/55'') \<and> word_bounded uc (str ''1/2/'') []"
  by (simp add: date_form_def word_bounded_def is_digit_def is_word_char_def is_sep_def str_def)

text \<open>
  C6, as stated, fails in both directions, whatever the character database. The token
  \<open>12/05/202\<close>, whose final group has exactly three digits, is extracted although it
  has not the stated form. And in \<open>1/2/33/4/55\<close> the token \<open>33/4/55\<close> has the stated form
  and no word character next to it, but is not extracted: the match \<open>1/2/33\<close> before it
  has consumed its first group.
\<close>

theorem three_digit_year_counterexample:
  "str ''12/05/202'' \<in> set (dates (extract_key_info devanagari_classes (str ''12/05/202'')))
   \<and> \<not> date_form devanagari_classes [2, 4] (str ''12/05/202'')
   \<and> dates (extract_key_info devanagari_classes (str ''1/2/33/4/55'')) = [str ''1/2/33'']
   \<and> date_form devanagari_classes [2, 4] (str ''33/4/55'')
   \<and> str ''1/2/33/4/55'' = str ''1/2/'' @ str ''33/4/55'' @ []
   \<and> word_bounded devanagari_classes (str ''1/2/'') []"
proof -
  have c1: "str ''12/05/202'' \<in> set (dates (extract_key_info devanagari_classes (str ''12/05/202'')))"
    by (simp only: three_digit_year_extracted) simp
  have c2: "\<not> date_form devanagari_classes [2, 4] (str ''12/05/202'')"
    by (rule three_digit_year_form)
  have c3: "dates (extract_key_info devanagari_classes (str ''1/2/33/4/55'')) = [str ''1/2/33'']"
    by (rule overlapped_token_missed)
  have c4: "date_form devanagari_classes [2, 4] (str ''33/4/55'')"
    and c6: "word_bounded devanagari_classes (str ''1/2/'') []"
    using overlapped_token_form [of devanagari_classes] by simp_all
  have c5: "str ''1/2/33/4/55'' = str ''1/2/'' @ str ''33/4/55'' @ []"
    by (simp add: str_def)
  show ?thesis
    by (rule conjI [OF c1 conjI [OF c2 conjI [OF c3 conjI [OF c4 conjI [OF c5 c6]]]]])
qed

text \<open>
  C6, amended. Every extracted date is a substring of the input of the form one or two
  digits, a separator \<open>-\<close> or \<open>/\<close>, one or two digits, a separator, then two to four
  digits, with no word character next to it (no calendar validation). The dates are the
  leftmost such tokens that do not overlap: a token before which no other token starts
  is extracted first, and the rest of the list is what is extracted from the text after
  it; a text with no such token yields no date; a text that is exactly such a token
  yields exactly that token. In particular \<open>12/05/202\<close>, whose final group has three
  digits, is extracted. Digits and word characters are those of \<open>\d\<close> and \<open>\w\<close>.
\<close>

theorem dates_are_leftmost_tokens:
  "(\<forall>d \<in> set (dates (extract_key_info uc text)).
      date_form uc [2, 3, 4] d
      \<and> (\<exists>before after. text = before @ d @ after \<and> word_bounded uc before after))
   \<and> (\<forall>before d after. text = before @ d @ after \<longrightarrow> date_form uc [2, 3, 4] d
        \<longrightarrow> word_bounded uc before after
        \<longrightarrow> (\<forall>b d' a'. text = b @ d' @ a' \<longrightarrow> length b < length before
              \<longrightarrow> date_form uc [2, 3, 4] d' \<longrightarrow> \<not> word_bounded uc b a')
        \<longrightarrow> dates (extract_key_info uc text) = d # dates (extract_key_info uc after))
   \<and> ((\<forall>b d a. text = b @ d @ a \<longrightarrow> date_form uc [2, 3, 4] d \<longrightarrow> \<not> word_bounded uc b a)
        \<longrightarrow> dates (extract_key_info uc text) = [])
   \<and> (date_form uc [2, 3, 4] text \<longrightarrow> dates (extract_key_info uc text) = [text])
   \<and> dates (extract_key_info uc (str ''12/05/202'')) = [str ''12/05/202'']"
proof -
  have a: "\<forall>d \<in> set (dates (extract_key_info uc text)).
      date_form uc [2, 3, 4] d
      \<and> (\<exists>before after. text = before @ d @ after \<and> word_bounded uc before after)"
    unfolding dates_extract using findall_date_sound by blast
  have b: "dates (extract_key_info uc text) = d # dates (extract_key_info uc after)"
    if "text = before @ d @ after" "date_form uc [2, 3, 4] d" "word_bounded uc before after"
      "\<forall>b d' a'. text = b @ d' @ a' \<longrightarrow> length b < length before
          \<longrightarrow> date_form uc [2, 3, 4] d' \<longrightarrow> \<not> word_bounded uc b a'"
    for before d after
    unfolding dates_extract using that(1-3)
  proof (rule findall_leftmost)
    fix b d' a'
    assume "text = b @ d' @ a'" "length b < length before" "date_form uc [2, 3, 4] d'"
    with that(4) show "\<not> word_bounded uc b a'"
      by blast
  qed
  have c: "dates (extract_key_info uc text) = []"
    if "\<forall>b d a. text = b @ d @ a \<longrightarrow> date_form uc [2, 3, 4] d \<longrightarrow> \<not> word_bounded uc b a"
    unfolding dates_extract using that by (intro findall_no_token) blast
  have d: "date_form uc [2, 3, 4] text \<longrightarrow> dates (extract_key_info uc text) = [text]"
    unfolding dates_extract using findall_whole_date by blast
  from a b c d three_digit_year_extracted [of uc] show ?thesis
    by blast
qed

theorem dates_are_leftmost_tokens_witness:
  "dates (extract_key_info devanagari_classes (str ''Room 5, due 12/05/2023.''))
      = [str ''12/05/2023'']
   \<and> date_form devanagari_classes [2, 3, 4] (str ''12/05/2023'')
   \<and> word_bounded devanagari_classes (str ''Room 5, due '') (str ''.'')
   \<and> dates (extract_key_info devanagari_classes (str ''no date'')) = []
   \<and> dates (extract_key_info devanagari_classes
        [0x967, 0x968, 47, 0x966, 0x96B, 47, 0x968, 0x966, 0x968, 0x969])
      = [[0x967, 0x968, 47, 0x966, 0x96B, 47, 0x968, 0x966, 0x968, 0x969]]
   \<and> dates (extract_key_info devanagari_classes (0x915 # str ''12/05/2023'')) = []"
proof -
  let ?uc = devanagari_classes
  let ?T = "str ''Room 5, due 12/05/2023.''"
  let ?N = "str ''no date''"
  let ?D = "[0x967, 0x968, 47, 0x966, 0x96B, 47, 0x968, 0x966, 0x968, 0x969] :: pystr"
  have t: "?T = str ''Room 5, due '' @ str ''12/05/2023'' @ str ''.''"
    by (simp add: str_def)
  have f: "date_form ?uc [2, 3, 4] (str ''12/05/2023'')"
    by (simp add: date_form_def is_digit_def is_sep_def str_def)
  have w: "word_bounded ?uc (str ''Room 5, due '') (str ''.'')"
    by (simp add: word_bounded_def is_word_char_def is_digit_def str_def)
  have none: "date_pattern ?uc (if take k ?T = [] then None else Some (last (take k ?T)))
      (drop k ?T) = None" if "k < 12" for k
  proof -
    from that consider "k = 0" | "k = 1" | "k = 2" | "k = 3" | "k = 4" | "k = 5" | "k = 6"
      | "k = 7" | "k = 8" | "k = 9" | "k = 10" | "k = 11"
      by atomize_elim arith
    then show ?thesis
      by cases (simp_all add: date_evals)
  qed
  have e: "\<forall>b d' a'. ?T = b @ d' @ a' \<longrightarrow> length b < length (str ''Room 5, due '')
      \<longrightarrow> date_form ?uc [2, 3, 4] d' \<longrightarrow> \<not> word_bounded ?uc b a'"
  proof (intro allI impI)
    fix b d' a'
    assume "?T = b @ d' @ a'" "length b < length (str ''Room 5, due '')"
      "date_form ?uc [2, 3, 4] d'"
    then show "\<not> word_bounded ?uc b a'"
      by (intro no_token_where_no_match [where n = 12 and s = "?T" and d' = d'] none)
        (simp_all add: str_def)
  qed
  have "dates (extract_key_info ?uc ?T)
      = str ''12/05/2023'' # dates (extract_key_info ?uc (str ''.''))"
    using dates_are_leftmost_tokens [of ?uc ?T] t f w e by blast
  moreover have "dates (extract_key_info ?uc (str ''.'')) = []"
    by (simp add: date_evals)
  ultimately have c1: "dates (extract_key_info ?uc ?T) = [str ''12/05/2023'']"
    by simp
  have none': "date_pattern ?uc (if take k ?N = [] then None else Some (last (take k ?N)))
      (drop k ?N) = None" if "k < 8" for k
  proof -
    from that consider "k = 0" | "k = 1" | "k = 2" | "k = 3" | "k = 4" | "k = 5" | "k = 6"
      | "k = 7"
      by atomize_elim arith
    then show ?thesis
      by cases (simp_all add: date_evals)
  qed
  have "\<forall>b d a. ?N = b @ d @ a \<longrightarrow> date_form ?uc [2, 3, 4] d \<longrightarrow> \<not> word_bounded ?uc b a"
  proof (intro allI impI)
    fix b d a
    assume n: "?N = b @ d @ a" and "date_form ?uc [2, 3, 4] d"
    moreover have "length b < 8"
    proof -
      have "length ?N = length b + length d + length a"
        by (simp only: n length_append add.assoc)
      then show ?thesis
        by (simp add: str_def)
    qed
    ultimately show "\<not> word_bounded ?uc b a"
      by (intro no_token_where_no_match [where n = 8 and s = "?N" and d' = d] none')
  qed
  then have c4: "dates (extract_key_info ?uc ?N) = []"
    using dates_are_leftmost_tokens [of ?uc ?N] by blast
  have "date_form ?uc [2, 3, 4] ?D"
    by (simp add: date_form_def is_digit_def is_sep_def devanagari_classes_def)
  then have c5: "dates (extract_key_info ?uc ?D) = [?D]"
    using dates_are_leftmost_tokens [of ?uc ?D] by blast
  have c6: "dates (extract_key_info ?uc (0x915 # str ''12/05/2023'')) = []"
    by (simp add: date_evals devanagari_classes_def)
  show ?thesis
    by (rule conjI [OF c1 conjI [OF f conjI [OF w conjI [OF c4 conjI [OF c5 c6]]]]])
qed

end
